theory Spec2Isabelle
  imports Main
begin

section \<open>Strings\<close>

text \<open>
  The module is Python 2 code (\<^verbatim>\<open>itervalues\<close>); its strings are byte strings, modelled as
  \<^typ>\<open>string\<close>.  \<open>split_on c s\<close> is \<^verbatim>\<open>s.split(c)\<close> for a one-character separator: the empty
  string splits into one empty item, and every separator starts a new item.
\<close>

fun split_on :: "char \<Rightarrow> string \<Rightarrow> string list" where
  "split_on c [] = [[]]"
| "split_on c (x # xs) =
     (if x = c then [] # split_on c xs
      else (case split_on c xs of
              [] \<Rightarrow> [[x]]
            | w # ws \<Rightarrow> (x # w) # ws))"

text \<open>\<open>join sep xs\<close> is \<^verbatim>\<open>sep.join(xs)\<close>.\<close>

fun join :: "string \<Rightarrow> string list \<Rightarrow> string" where
  "join sep [] = []"
| "join sep [x] = x"
| "join sep (x # y # ys) = x @ sep @ join sep (y # ys)"

definition apostrophe :: char where
  "apostrophe = CHR 0x27"

section \<open>Messages and the system state\<close>

text \<open>
  Modelled from the spec: \<^verbatim>\<open>common.RuleMessage\<close> and the three \<^verbatim>\<open>common.MESSAGE_TYPE_*\<close>
  constants are imported from a module that is not part of the sources; a message is a
  severity and a text, and the three severities are distinct.
\<close>

datatype message_type = MESSAGE_TYPE_FATAL | MESSAGE_TYPE_WARNING | MESSAGE_TYPE_INFO

datatype RuleMessage = RuleMessage (msg_type: message_type) (msg_text: string)

text \<open>
  The part of \<^verbatim>\<open>ksdata\<close> and \<^verbatim>\<open>storage\<close> that the rules read and write:
  \<open>mountpoints st mp = Some s\<close> when \<^verbatim>\<open>mp in storage.mountpoints\<close> and
  \<^verbatim>\<open>storage.mountpoints[mp].format.options\<close> is the string \<open>s\<close>;
  \<open>packageList\<close> and \<open>excludedList\<close> are the two lists of \<^verbatim>\<open>ksdata.packages\<close>.
\<close>

record system_state =
  mountpoints :: "string \<rightharpoonup> string"
  packageList :: "string list"
  excludedList :: "string list"

section \<open>Rules for one mount point\<close>

record PartRule =
  mount_point :: string
  mount_options :: "string list"

definition PartRule_init :: "string \<Rightarrow> PartRule" where
  "PartRule_init mp = \<lparr>mount_point = mp, mount_options = []\<rparr>"

text \<open>
  \<^verbatim>\<open>self._mount_options.extend(opt for opt in mount_options if opt not in self._mount_options)\<close>:
  the argument of \<^verbatim>\<open>extend\<close> is a generator, so its condition is evaluated when
  \<^verbatim>\<open>extend\<close> asks for the next item, against the list as extended so far.  The loop
  below takes the options one at a time for that reason.
\<close>

fun extend_new :: "string list \<Rightarrow> string list \<Rightarrow> string list" where
  "extend_new cur [] = cur"
| "extend_new cur (opt # opts) =
     extend_new (if opt \<notin> set cur then cur @ [opt] else cur) opts"

definition add_mount_options :: "PartRule \<Rightarrow> string list \<Rightarrow> PartRule" where
  "add_mount_options r opts = r\<lparr>mount_options := extend_new (mount_options r) opts\<rparr>"

definition fatal_msg :: "string \<Rightarrow> RuleMessage" where
  "fatal_msg mp =
     RuleMessage MESSAGE_TYPE_FATAL (mp @ '' must be on a separate partition or logical volume'')"

definition option_msg :: "string \<Rightarrow> string \<Rightarrow> RuleMessage" where
  "option_msg mp opt =
     RuleMessage MESSAGE_TYPE_INFO
       (''mount option '' @ [apostrophe] @ opt @ [apostrophe] @ '' added for the mount point '' @ mp)"

text \<open>
  The \<^verbatim>\<open>for opt in new_opts\<close> loop of \<^verbatim>\<open>PartRule.eval_rules\<close>: \<open>present\<close> is
  \<^verbatim>\<open>target_mount_point.format.options.split(",")\<close>, which the loop does not change; the
  accumulator holds \<^verbatim>\<open>new_opts_str\<close> and \<^verbatim>\<open>messages\<close>.
\<close>

fun new_opts_loop ::
  "string \<Rightarrow> string list \<Rightarrow> string list \<Rightarrow> string \<times> RuleMessage list \<Rightarrow> string \<times> RuleMessage list"
where
  "new_opts_loop mp present [] acc = acc"
| "new_opts_loop mp present (opt # opts) (new_opts_str, messages) =
     (if opt \<notin> set present
      then new_opts_loop mp present opts
             (new_opts_str @ '','' @ opt, messages @ [option_msg mp opt])
      else new_opts_loop mp present opts (new_opts_str, messages))"

definition PartRule_eval_rules ::
  "PartRule \<Rightarrow> system_state \<Rightarrow> bool \<Rightarrow> RuleMessage list \<times> system_state"
where
  "PartRule_eval_rules r st report_only =
     (case mountpoints st (mount_point r) of
        None \<Rightarrow> ([fatal_msg (mount_point r)], st)
      | Some options \<Rightarrow>
          (let (new_opts_str, messages) =
                 new_opts_loop (mount_point r) (split_on CHR '','' options) (mount_options r) ([], [])
           in (messages,
               if \<not> report_only
               then st\<lparr>mountpoints := (mountpoints st)(mount_point r \<mapsto> options @ new_opts_str)\<rparr>
               else st)))"

section \<open>The collection of partition rules\<close>

text \<open>
  \<^verbatim>\<open>PartRules._rules\<close> is a dictionary from mount point to \<^verbatim>\<open>PartRule\<close>.  It is modelled as
  an association list with one entry per key; the order of the list stands for the order
  in which the dictionary is iterated.
\<close>

type_synonym PartRules = "(string \<times> PartRule) list"

definition ensure_mount_point :: "PartRules \<Rightarrow> string \<Rightarrow> PartRules" where
  "ensure_mount_point rules mp =
     (if mp \<notin> fst ` set rules then rules @ [(mp, PartRule_init mp)] else rules)"

fun PartRules_eval_rules ::
  "PartRules \<Rightarrow> system_state \<Rightarrow> bool \<Rightarrow> RuleMessage list \<times> system_state"
where
  "PartRules_eval_rules [] st report_only = ([], st)"
| "PartRules_eval_rules ((k, r) # rules) st report_only =
     (let (m1, st1) = PartRule_eval_rules r st report_only;
          (m2, st2) = PartRules_eval_rules rules st1 report_only
      in (m1 @ m2, st2))"

section \<open>Password rules\<close>

text \<open>\<open>str_int\<close> is the \<^verbatim>\<open>%d\<close> conversion: decimal digits, a minus sign for a negative number.\<close>

definition digit_char :: "nat \<Rightarrow> char" where
  "digit_char d = ''0123456789'' ! d"

fun str_nat :: "nat \<Rightarrow> string" where
  "str_nat n = (if n < 10 then [digit_char n] else str_nat (n div 10) @ [digit_char (n mod 10)])"

declare str_nat.simps [simp del]

definition str_int :: "int \<Rightarrow> string" where
  "str_int i = (if i < 0 then CHR ''-'' # str_nat (nat (- i)) else str_nat (nat i))"

record PasswdRules =
  minlen :: int

definition PasswdRules_init :: PasswdRules where
  "PasswdRules_init = \<lparr>minlen = 0\<rparr>"

definition update_minlen :: "PasswdRules \<Rightarrow> int \<Rightarrow> PasswdRules" where
  "update_minlen p v = (if v > minlen p then p\<lparr>minlen := v\<rparr> else p)"

definition minlen_msg :: "int \<Rightarrow> RuleMessage" where
  "minlen_msg n =
     RuleMessage MESSAGE_TYPE_WARNING
       (''make sure to create password with minimal length of '' @ str_int n @ '' characters'')"

text \<open>
  \<^verbatim>\<open>PasswdRules.eval_rules(self, *args)\<close> takes the system state and the mode only as
  \<^verbatim>\<open>*args\<close>, which its body never reads.
\<close>

definition PasswdRules_eval_rules ::
  "PasswdRules \<Rightarrow> system_state \<Rightarrow> bool \<Rightarrow> RuleMessage list \<times> system_state"
where
  "PasswdRules_eval_rules p st report_only =
     (if minlen p > 0 then ([minlen_msg (minlen p)], st) else ([], st))"

section \<open>Package rules\<close>

text \<open>
  \<^verbatim>\<open>_add_pkgs\<close> and \<^verbatim>\<open>_remove_pkgs\<close> are Python sets.  A set is modelled as the list of
  its elements in the order in which it is iterated; \<open>set_update\<close> is \<^verbatim>\<open>set.update\<close>,
  which leaves an element that is already there alone.
\<close>

record PackageRules =
  add_pkgs :: "string list"
  remove_pkgs :: "string list"

definition PackageRules_init :: PackageRules where
  "PackageRules_init = \<lparr>add_pkgs = [], remove_pkgs = []\<rparr>"

fun set_update :: "string list \<Rightarrow> string list \<Rightarrow> string list" where
  "set_update s [] = s"
| "set_update s (p # ps) = set_update (if p \<in> set s then s else s @ [p]) ps"

text \<open>
  The argument is \<^verbatim>\<open>opts.add_pkgs\<close> (\<^verbatim>\<open>opts.remove_pkgs\<close>): \<^verbatim>\<open>None\<close> when the flag does
  not occur on the line.  \<^verbatim>\<open>if packages:\<close> skips \<^verbatim>\<open>None\<close> and the empty list.
\<close>

definition add_packages :: "PackageRules \<Rightarrow> string list option \<Rightarrow> PackageRules" where
  "add_packages p packages =
     (case packages of
        None \<Rightarrow> p
      | Some ps \<Rightarrow> if ps \<noteq> [] then p\<lparr>add_pkgs := set_update (add_pkgs p) ps\<rparr> else p)"

definition remove_packages :: "PackageRules \<Rightarrow> string list option \<Rightarrow> PackageRules" where
  "remove_packages p packages =
     (case packages of
        None \<Rightarrow> p
      | Some ps \<Rightarrow> if ps \<noteq> [] then p\<lparr>remove_pkgs := set_update (remove_pkgs p) ps\<rparr> else p)"

definition added_msg :: "string \<Rightarrow> RuleMessage" where
  "added_msg pkg =
     RuleMessage MESSAGE_TYPE_INFO
       (''package '' @ [apostrophe] @ pkg @ [apostrophe]
        @ '' has been added to the list of to be installed packages'')"

definition excluded_msg :: "string \<Rightarrow> RuleMessage" where
  "excluded_msg pkg =
     RuleMessage MESSAGE_TYPE_INFO
       (''package '' @ [apostrophe] @ pkg @ [apostrophe]
        @ '' has been added to the list of excluded packages'')"

text \<open>
  One \<^verbatim>\<open>for pkg in ...\<close> loop of \<^verbatim>\<open>PackageRules.eval_rules\<close>: \<open>lst\<close> is the list of
  \<^verbatim>\<open>ksdata.packages\<close> that the loop appends to, \<open>mk\<close> builds the loop's message.
\<close>

fun pkgs_loop ::
  "(string \<Rightarrow> RuleMessage) \<Rightarrow> bool \<Rightarrow> string list \<Rightarrow> string list \<times> RuleMessage list
     \<Rightarrow> string list \<times> RuleMessage list"
where
  "pkgs_loop mk report_only [] acc = acc"
| "pkgs_loop mk report_only (pkg # pkgs) (lst, messages) =
     pkgs_loop mk report_only pkgs
       (if \<not> report_only \<and> pkg \<notin> set lst then lst @ [pkg] else lst, messages @ [mk pkg])"

definition PackageRules_eval_rules ::
  "PackageRules \<Rightarrow> system_state \<Rightarrow> bool \<Rightarrow> RuleMessage list \<times> system_state"
where
  "PackageRules_eval_rules p st report_only =
     (let (plist, m1) = pkgs_loop added_msg report_only (add_pkgs p) (packageList st, []);
          (elist, m2) = pkgs_loop excluded_msg report_only (remove_pkgs p) (excludedList st, m1)
      in (m2, st\<lparr>packageList := plist, excludedList := elist\<rparr>))"

section \<open>Bootloader rules\<close>

record BootloaderRules =
  require_password_flag :: bool

definition BootloaderRules_init :: BootloaderRules where
  "BootloaderRules_init = \<lparr>require_password_flag = False\<rparr>"

definition require_password :: "BootloaderRules \<Rightarrow> BootloaderRules" where
  "require_password b = b\<lparr>require_password_flag := True\<rparr>"

text \<open>\<^verbatim>\<open>BootloaderRules\<close> inherits \<^verbatim>\<open>RuleHandler.eval_rules\<close>, which returns the empty list.\<close>

definition BootloaderRules_eval_rules ::
  "BootloaderRules \<Rightarrow> system_state \<Rightarrow> bool \<Rightarrow> RuleMessage list \<times> system_state"
where
  "BootloaderRules_eval_rules b st report_only = ([], st)"

section \<open>The rule data\<close>

record RuleData =
  part_rules :: PartRules
  passwd_rules :: PasswdRules
  package_rules :: PackageRules
  bootloader_rules :: BootloaderRules

definition RuleData_init :: RuleData where
  "RuleData_init =
     \<lparr>part_rules = [], passwd_rules = PasswdRules_init,
      package_rules = PackageRules_init, bootloader_rules = BootloaderRules_init\<rparr>"

text \<open>
  No \<^verbatim>\<open>eval_rules\<close> method assigns to an attribute of its rule object or calls one of the
  methods that do, so the rules are an argument of the evaluation and the system state is
  what it returns beside the messages.
\<close>

definition RuleData_eval_rules ::
  "RuleData \<Rightarrow> system_state \<Rightarrow> bool \<Rightarrow> RuleMessage list \<times> system_state"
where
  "RuleData_eval_rules rd st report_only =
     (let (m1, st1) = PartRules_eval_rules (part_rules rd) st report_only;
          (m2, st2) = PasswdRules_eval_rules (passwd_rules rd) st1 report_only;
          (m3, st3) = PackageRules_eval_rules (package_rules rd) st2 report_only;
          (m4, st4) = BootloaderRules_eval_rules (bootloader_rules rd) st3 report_only
      in (m1 @ m2 @ m3 @ m4, st4))"

section \<open>Exceptions\<close>

text \<open>
  The exceptions a rule line can end in.  \<^verbatim>\<open>UknownRuleError\<close> is the module's own class
  and carries its message.  The others come from the standard library: \<^verbatim>\<open>optparse\<close>
  reports every error of the option syntax through \<^verbatim>\<open>parser.error\<close>, which prints the
  usage and calls \<^verbatim>\<open>sys.exit(2)\<close>, and its help option calls \<^verbatim>\<open>sys.exit(0)\<close>, so both
  surface as \<^verbatim>\<open>SystemExit\<close> with that status; \<^verbatim>\<open>shlex.split\<close> raises \<^verbatim>\<open>ValueError\<close> on an
  unfinished quotation or escape; \<^verbatim>\<open>args[1]\<close> raises \<^verbatim>\<open>IndexError\<close>.  The module defines
  no other exception class and catches only \<^verbatim>\<open>KeyError\<close>.
\<close>

datatype py_exception =
    UknownRuleError string
  | SystemExit nat
  | ValueError string
  | IndexError

section \<open>Whitespace, stripping, the first word\<close>

text \<open>
  \<open>is_space\<close> holds of the six characters that \<^verbatim>\<open>str.strip()\<close> and \<^verbatim>\<open>str.split(None)\<close>
  treat as whitespace in a byte string; \<open>py_strip\<close> is \<^verbatim>\<open>rule.strip()\<close> and \<open>first_word\<close>
  is \<^verbatim>\<open>rule.split(None, 1)[0]\<close> for a string that is not all whitespace.
\<close>

definition is_space :: "char \<Rightarrow> bool" where
  "is_space c = (c \<in> set [CHR 0x09, CHR 0x0A, CHR 0x0B, CHR 0x0C, CHR 0x0D, CHR '' ''])"

definition py_strip :: "string \<Rightarrow> string" where
  "py_strip s = rev (dropWhile is_space (rev (dropWhile is_space s)))"

definition first_word :: "string \<Rightarrow> string" where
  "first_word rule = takeWhile (\<lambda>c. \<not> is_space c) (dropWhile is_space rule)"

section \<open>shlex.split\<close>

text \<open>
  \<^verbatim>\<open>shlex.split(rule)\<close> runs the standard library's lexer in POSIX mode with
  \<^verbatim>\<open>whitespace_split\<close> set and no comment characters.  \<open>read_tokens\<close> follows the state
  machine of \<^verbatim>\<open>shlex.read_token\<close> with these settings, one character at a time: the
  states are \<^verbatim>\<open>' '\<close> (\<open>Blank\<close>), \<^verbatim>\<open>'a'\<close> (\<open>Word\<close>), a quote character (\<open>Quote\<close>) and
  the escape character (\<open>Escape\<close>, with the state to return to: \<open>None\<close> for \<^verbatim>\<open>'a'\<close>,
  \<open>Some q\<close> for the quote \<open>q\<close>); \<open>token\<close> and \<open>quoted\<close> are the lexer's variables of
  these names.  Emitting a token starts the next call of \<^verbatim>\<open>read_token\<close>, with an empty
  token and \<open>quoted\<close> false.
\<close>

datatype shlex_state = Blank | Word | Quote char | Escape "char option"

definition shlex_whitespace :: "char \<Rightarrow> bool" where
  "shlex_whitespace c = (c \<in> set [CHR '' '', CHR 0x09, CHR 0x0D, CHR 0x0A])"

definition shlex_quotes :: "char \<Rightarrow> bool" where
  "shlex_quotes c = (c = CHR 0x27 \<or> c = CHR 0x22)"

definition shlex_escape :: "char \<Rightarrow> bool" where
  "shlex_escape c = (c = CHR 0x5C)"

definition emit :: "string \<Rightarrow> py_exception + string list \<Rightarrow> py_exception + string list" where
  "emit token r = (case r of Inl e \<Rightarrow> Inl e | Inr tokens \<Rightarrow> Inr (token # tokens))"

fun read_tokens ::
  "shlex_state \<Rightarrow> string \<Rightarrow> bool \<Rightarrow> string \<Rightarrow> py_exception + string list"
where
  "read_tokens Blank token quoted [] = Inr []"
| "read_tokens Word token quoted [] = (if token \<noteq> [] \<or> quoted then Inr [token] else Inr [])"
| "read_tokens (Quote q) token quoted [] = Inl (ValueError ''No closing quotation'')"
| "read_tokens (Escape e) token quoted [] = Inl (ValueError ''No escaped character'')"
| "read_tokens Blank token quoted (c # cs) =
     (if shlex_whitespace c then
        (if token \<noteq> [] \<or> quoted then emit token (read_tokens Blank [] False cs)
         else read_tokens Blank token quoted cs)
      else if shlex_escape c then read_tokens (Escape None) token quoted cs
      else if shlex_quotes c then read_tokens (Quote c) token quoted cs
      else read_tokens Word [c] quoted cs)"
| "read_tokens Word token quoted (c # cs) =
     (if shlex_whitespace c then
        (if token \<noteq> [] \<or> quoted then emit token (read_tokens Blank [] False cs)
         else read_tokens Blank token quoted cs)
      else if shlex_quotes c then read_tokens (Quote c) token quoted cs
      else if shlex_escape c then read_tokens (Escape None) token quoted cs
      else read_tokens Word (token @ [c]) quoted cs)"
| "read_tokens (Quote q) token quoted (c # cs) =
     (if c = q then read_tokens Word token True cs
      else if shlex_escape c \<and> q = CHR 0x22 then read_tokens (Escape (Some q)) token True cs
      else read_tokens (Quote q) (token @ [c]) True cs)"
| "read_tokens (Escape e) token quoted (c # cs) =
     (case e of
        None \<Rightarrow> read_tokens Word (token @ [c]) quoted cs
      | Some q \<Rightarrow>
          read_tokens (Quote q)
            ((if \<not> shlex_escape c \<and> c \<noteq> q then token @ [CHR 0x5C] else token) @ [c]) quoted cs)"

definition shlex_split :: "string \<Rightarrow> py_exception + string list" where
  "shlex_split s = read_tokens Blank [] False s"

section \<open>optparse\<close>

text \<open>
  The four parsers of the module are \<^verbatim>\<open>optparse.OptionParser()\<close> objects with one or two
  options added; each also has the help option \<^verbatim>\<open>-h\<close>/\<^verbatim>\<open>--help\<close> that the constructor
  adds.  An option is modelled by its option strings, its action and its destination; the
  actions are the ones the module uses, grouped by whether the option takes a value
  (\<^verbatim>\<open>store\<close> with type \<^verbatim>\<open>int\<close>, \<^verbatim>\<open>append\<close>, \<^verbatim>\<open>callback\<close> with \<^verbatim>\<open>parse_csv\<close>) or not
  (\<^verbatim>\<open>store_true\<close>, \<^verbatim>\<open>help\<close>).  \<open>Values\<close> is the object that holds the parsed options, as
  a function from destination to value; \<open>defaults\<close> is what \<^verbatim>\<open>get_default_values()\<close>
  returns: \<^verbatim>\<open>None\<close> for a destination without a default.
\<close>

datatype py_value = PyNone | PyInt int | PyBool bool | PyList "string list"

type_synonym Values = "string \<Rightarrow> py_value"

datatype value_action = Store_int | Append | Callback_parse_csv

datatype flag_action = Store_true | Help

datatype opt_action = With_value value_action | Without_value flag_action

record opt_spec =
  short_opts :: "string list"
  long_opts :: "string list"
  action :: opt_action
  dest :: string

record OptionParser =
  option_list :: "opt_spec list"
  defaults :: Values

definition help_option :: opt_spec where
  "help_option =
     \<lparr>short_opts = [''-h''], long_opts = [''--help''], action = Without_value Help, dest = ''''\<rparr>"

definition PART_RULE_PARSER :: OptionParser where
  "PART_RULE_PARSER =
     \<lparr>option_list =
        [help_option,
         \<lparr>short_opts = [], long_opts = [''--mountoptions''],
          action = With_value Callback_parse_csv, dest = ''mount_options''\<rparr>],
      defaults = (\<lambda>d. PyNone)\<rparr>"

definition PASSWD_RULE_PARSER :: OptionParser where
  "PASSWD_RULE_PARSER =
     \<lparr>option_list =
        [help_option,
         \<lparr>short_opts = [], long_opts = [''--minlen''],
          action = With_value Store_int, dest = ''minlen''\<rparr>],
      defaults = (\<lambda>d. PyNone)(''minlen'' := PyInt 0)\<rparr>"

definition PACKAGE_RULE_PARSER :: OptionParser where
  "PACKAGE_RULE_PARSER =
     \<lparr>option_list =
        [help_option,
         \<lparr>short_opts = [], long_opts = [''--add''],
          action = With_value Append, dest = ''add_pkgs''\<rparr>,
         \<lparr>short_opts = [], long_opts = [''--remove''],
          action = With_value Append, dest = ''remove_pkgs''\<rparr>],
      defaults = (\<lambda>d. PyNone)\<rparr>"

definition BOOTLOADER_RULE_PARSER :: OptionParser where
  "BOOTLOADER_RULE_PARSER =
     \<lparr>option_list =
        [help_option,
         \<lparr>short_opts = [], long_opts = [''--passwd''],
          action = Without_value Store_true, dest = ''passwd''\<rparr>],
      defaults = (\<lambda>d. PyNone)(''passwd'' := PyBool False)\<rparr>"

text \<open>
  The type \<^verbatim>\<open>int\<close> of \<^verbatim>\<open>--minlen\<close>: \<open>parse_num\<close> is \<^verbatim>\<open>optparse._parse_num\<close>, which picks the
  radix from the prefix of the string and calls \<^verbatim>\<open>int(val, radix)\<close>; \<open>py_int\<close> models that
  call for strings made of optional surrounding whitespace, an optional sign, an optional
  radix prefix and digits, and gives \<open>None\<close> where \<^verbatim>\<open>int\<close> raises \<^verbatim>\<open>ValueError\<close>.
\<close>

definition digit_value :: "char \<Rightarrow> nat option" where
  "digit_value c =
     (let n = (of_char c :: nat)
      in if 48 \<le> n \<and> n \<le> 57 then Some (n - 48)
         else if 97 \<le> n \<and> n \<le> 122 then Some (n - 87)
         else if 65 \<le> n \<and> n \<le> 90 then Some (n - 55)
         else None)"

fun digits_value :: "nat \<Rightarrow> string \<Rightarrow> nat \<Rightarrow> nat option" where
  "digits_value radix [] acc = Some acc"
| "digits_value radix (c # cs) acc =
     (case digit_value c of
        None \<Rightarrow> None
      | Some d \<Rightarrow> if d < radix then digits_value radix cs (acc * radix + d) else None)"

definition radix_prefix :: "nat \<Rightarrow> string \<Rightarrow> bool" where
  "radix_prefix radix s =
     (radix = 16 \<and> take 2 s \<in> set [''0x'', ''0X'']
      \<or> radix = 8 \<and> take 2 s \<in> set [''0o'', ''0O'']
      \<or> radix = 2 \<and> take 2 s \<in> set [''0b'', ''0B''])"

definition py_int :: "string \<Rightarrow> nat \<Rightarrow> int option" where
  "py_int s radix =
     (let t = py_strip s;
          neg = (take 1 t = ''-'');
          t1 = (if take 1 t = ''-'' \<or> take 1 t = ''+'' then drop 1 t else t);
          t2 = (if radix_prefix radix t1 then drop 2 t1 else t1)
      in if t2 = [] then None
         else (case digits_value radix t2 0 of
                 None \<Rightarrow> None
               | Some n \<Rightarrow> Some (if neg then - int n else int n)))"

definition parse_num :: "string \<Rightarrow> int option" where
  "parse_num val =
     (if take 2 val \<in> set [''0x'', ''0X''] then py_int val 16
      else if take 2 val \<in> set [''0b'', ''0B'']
        then py_int (if drop 2 val = [] then ''0'' else drop 2 val) 2
      else if take 1 val = ''0'' then py_int val 8
      else py_int val 10)"

text \<open>
  \<open>ensure_value_append vals d item\<close> is \<^verbatim>\<open>values.ensure_value(d, []).append(item)\<close>.
  \<open>parse_csv\<close> is the module's callback of that name; \<open>process_value\<close> and
  \<open>process_flag\<close> are \<^verbatim>\<open>Option.process\<close> for an option with and without a value.
\<close>

definition ensure_value_append :: "Values \<Rightarrow> string \<Rightarrow> string \<Rightarrow> Values" where
  "ensure_value_append vals d item =
     (case vals d of
        PyList xs \<Rightarrow> vals(d := PyList (xs @ [item]))
      | _ \<Rightarrow> vals(d := PyList [item]))"

fun parse_csv_loop :: "string \<Rightarrow> string list \<Rightarrow> Values \<Rightarrow> Values" where
  "parse_csv_loop d [] vals = vals"
| "parse_csv_loop d (item # items) vals =
     parse_csv_loop d items (if item \<noteq> [] then ensure_value_append vals d item else vals)"

definition parse_csv :: "string \<Rightarrow> string \<Rightarrow> Values \<Rightarrow> Values" where
  "parse_csv d val vals = parse_csv_loop d (split_on CHR '','' val) vals"

definition process_value :: "value_action \<Rightarrow> string \<Rightarrow> string \<Rightarrow> Values \<Rightarrow> py_exception + Values" where
  "process_value a d val vals =
     (case a of
        Store_int \<Rightarrow>
          (case parse_num val of
             None \<Rightarrow> Inl (SystemExit 2)
           | Some n \<Rightarrow> Inr (vals(d := PyInt n)))
      | Append \<Rightarrow> Inr (ensure_value_append vals d val)
      | Callback_parse_csv \<Rightarrow> Inr (parse_csv d val vals))"

definition process_flag :: "flag_action \<Rightarrow> string \<Rightarrow> Values \<Rightarrow> py_exception + Values" where
  "process_flag a d vals =
     (case a of
        Store_true \<Rightarrow> Inr (vals(d := PyBool True))
      | Help \<Rightarrow> Inl (SystemExit 0))"

text \<open>
  \<open>match_long_opt\<close> is \<^verbatim>\<open>_match_long_opt\<close> followed by the lookup of the option: an exact
  option string, or else the only option string that the given one is a prefix of.
  \<open>process_long_opt\<close> and \<open>process_short_opts\<close> are the methods \<^verbatim>\<open>_process_long_opt\<close> and
  \<^verbatim>\<open>_process_short_opts\<close>, and \<open>process_args\<close> is the loop of \<^verbatim>\<open>_process_args\<close>, with
  \<open>rargs\<close> the arguments still to read and \<open>largs\<close> the positional arguments read so
  far.  \<open>parse_args\<close> returns the values and \<^verbatim>\<open>largs + rargs\<close>; the list passed in is used
  whole, so the keyword is its first positional argument.
\<close>

definition long_opt_map :: "OptionParser \<Rightarrow> (string \<times> opt_spec) list" where
  "long_opt_map P = concat (map (\<lambda>opt. map (\<lambda>n. (n, opt)) (long_opts opt)) (option_list P))"

definition match_long_opt :: "OptionParser \<Rightarrow> string \<Rightarrow> (string \<times> opt_spec) option" where
  "match_long_opt P s =
     (case filter (\<lambda>(n, opt). n = s) (long_opt_map P) of
        m # ms \<Rightarrow> Some m
      | [] \<Rightarrow>
          (case filter (\<lambda>(n, opt). take (length s) n = s) (long_opt_map P) of
             [m] \<Rightarrow> Some m
           | _ \<Rightarrow> None))"

definition split_eq :: "string \<Rightarrow> string \<times> string option" where
  "split_eq arg =
     (if CHR ''='' \<in> set arg
      then (takeWhile (\<lambda>c. c \<noteq> CHR ''='') arg, Some (drop 1 (dropWhile (\<lambda>c. c \<noteq> CHR ''='') arg)))
      else (arg, None))"

definition process_long_opt ::
  "OptionParser \<Rightarrow> string \<Rightarrow> string list \<Rightarrow> Values \<Rightarrow> py_exception + Values \<times> string list"
where
  "process_long_opt P arg rargs vals =
     (let (opt, explicit) = split_eq arg;
          rargs1 = (case explicit of Some next_arg \<Rightarrow> next_arg # rargs | None \<Rightarrow> rargs)
      in case match_long_opt P opt of
           None \<Rightarrow> Inl (SystemExit 2)
         | Some (name, option) \<Rightarrow>
             (case action option of
                With_value a \<Rightarrow>
                  (case rargs1 of
                     [] \<Rightarrow> Inl (SystemExit 2)
                   | val # rest \<Rightarrow>
                       (case process_value a (dest option) val vals of
                          Inl e \<Rightarrow> Inl e
                        | Inr vals' \<Rightarrow> Inr (vals', rest)))
              | Without_value a \<Rightarrow>
                  (if explicit \<noteq> None then Inl (SystemExit 2)
                   else (case process_flag a (dest option) vals of
                           Inl e \<Rightarrow> Inl e
                         | Inr vals' \<Rightarrow> Inr (vals', rargs1)))))"

fun process_short_opts ::
  "OptionParser \<Rightarrow> string \<Rightarrow> string list \<Rightarrow> Values \<Rightarrow> py_exception + Values \<times> string list"
where
  "process_short_opts P [] rargs vals = Inr (vals, rargs)"
| "process_short_opts P (ch # chs) rargs vals =
     (case find (\<lambda>opt. [CHR ''-'', ch] \<in> set (short_opts opt)) (option_list P) of
        None \<Rightarrow> Inl (SystemExit 2)
      | Some option \<Rightarrow>
          (case action option of
             With_value a \<Rightarrow>
               (case (if chs \<noteq> [] then chs # rargs else rargs) of
                  [] \<Rightarrow> Inl (SystemExit 2)
                | val # rest \<Rightarrow>
                    (case process_value a (dest option) val vals of
                       Inl e \<Rightarrow> Inl e
                     | Inr vals' \<Rightarrow> Inr (vals', rest)))
           | Without_value a \<Rightarrow>
               (case process_flag a (dest option) vals of
                  Inl e \<Rightarrow> Inl e
                | Inr vals' \<Rightarrow> process_short_opts P chs rargs vals')))"

lemma process_long_opt_length:
  "process_long_opt P arg rargs vals = Inr (vals', rargs') \<Longrightarrow> length rargs' \<le> length rargs"
  by (auto simp: process_long_opt_def Let_def split: prod.splits option.splits opt_action.splits
        list.splits sum.splits if_splits)

lemma process_short_opts_length:
  "process_short_opts P chs rargs vals = Inr (vals', rargs') \<Longrightarrow> length rargs' \<le> length rargs"
  by (induction chs arbitrary: vals)
     (auto split: option.splits opt_action.splits list.splits sum.splits if_splits)

function process_args ::
  "OptionParser \<Rightarrow> string list \<Rightarrow> string list \<Rightarrow> Values \<Rightarrow> py_exception + Values \<times> string list"
where
  "process_args P [] largs vals = Inr (vals, largs)"
| "process_args P (arg # rargs) largs vals =
     (if arg = ''--'' then Inr (vals, largs @ rargs)
      else if take 2 arg = ''--'' then
        (case process_long_opt P arg rargs vals of
           Inl e \<Rightarrow> Inl e
         | Inr (vals', rargs') \<Rightarrow> process_args P rargs' largs vals')
      else if take 1 arg = ''-'' \<and> length arg > 1 then
        (case process_short_opts P (drop 1 arg) rargs vals of
           Inl e \<Rightarrow> Inl e
         | Inr (vals', rargs') \<Rightarrow> process_args P rargs' largs vals')
      else process_args P rargs (largs @ [arg]) vals)"
  by pat_completeness auto
termination
  by (relation "measure (\<lambda>(P, rargs, largs, vals). length rargs)")
     (auto dest: process_long_opt_length process_short_opts_length)

definition parse_args :: "OptionParser \<Rightarrow> string list \<Rightarrow> py_exception + Values \<times> string list" where
  "parse_args P args = process_args P args [] (defaults P)"

section \<open>Adding rules\<close>

text \<open>
  The four handlers of \<^verbatim>\<open>RuleData\<close>.  Each returns the rule data as changed, or the
  exception raised; every exception is raised before the first change, so a failing line
  leaves the rule data as it was.  \<open>update_rule\<close> changes the rule stored under a key, as
  \<^verbatim>\<open>self._part_rules[mount_point]\<close> followed by a call of a method of that rule does.
\<close>

fun update_rule :: "PartRules \<Rightarrow> string \<Rightarrow> (PartRule \<Rightarrow> PartRule) \<Rightarrow> PartRules" where
  "update_rule [] key f = []"
| "update_rule ((k, r) # rules) key f =
     (if k = key then (k, f r) # rules else (k, r) # update_rule rules key f)"

definition new_part_rule :: "RuleData \<Rightarrow> string \<Rightarrow> py_exception + RuleData" where
  "new_part_rule rd rule =
     (case shlex_split rule of
        Inl e \<Rightarrow> Inl e
      | Inr args \<Rightarrow>
          (case parse_args PART_RULE_PARSER args of
             Inl e \<Rightarrow> Inl e
           | Inr (opts, args') \<Rightarrow>
               (if length args' < 2 then Inl IndexError
                else (let mp = args' ! 1;
                          rules = ensure_mount_point (part_rules rd) mp
                      in case opts ''mount_options'' of
                           PyList mount_opts \<Rightarrow>
                             (if mount_opts \<noteq> []
                              then Inr (rd\<lparr>part_rules :=
                                     update_rule rules mp (\<lambda>r. add_mount_options r mount_opts)\<rparr>)
                              else Inr (rd\<lparr>part_rules := rules\<rparr>))
                         | _ \<Rightarrow> Inr (rd\<lparr>part_rules := rules\<rparr>)))))"

definition new_passwd_rule :: "RuleData \<Rightarrow> string \<Rightarrow> py_exception + RuleData" where
  "new_passwd_rule rd rule =
     (case shlex_split rule of
        Inl e \<Rightarrow> Inl e
      | Inr args \<Rightarrow>
          (case parse_args PASSWD_RULE_PARSER args of
             Inl e \<Rightarrow> Inl e
           | Inr (opts, args') \<Rightarrow>
               (case opts ''minlen'' of
                  PyInt n \<Rightarrow> Inr (rd\<lparr>passwd_rules := update_minlen (passwd_rules rd) n\<rparr>)
                | _ \<Rightarrow> Inr rd)))"

definition list_or_None :: "py_value \<Rightarrow> string list option" where
  "list_or_None v = (case v of PyList xs \<Rightarrow> Some xs | _ \<Rightarrow> None)"

definition new_package_rule :: "RuleData \<Rightarrow> string \<Rightarrow> py_exception + RuleData" where
  "new_package_rule rd rule =
     (case shlex_split rule of
        Inl e \<Rightarrow> Inl e
      | Inr args \<Rightarrow>
          (case parse_args PACKAGE_RULE_PARSER args of
             Inl e \<Rightarrow> Inl e
           | Inr (opts, args') \<Rightarrow>
               Inr (rd\<lparr>package_rules :=
                      remove_packages
                        (add_packages (package_rules rd) (list_or_None (opts ''add_pkgs'')))
                        (list_or_None (opts ''remove_pkgs''))\<rparr>)))"

definition new_bootloader_rule :: "RuleData \<Rightarrow> string \<Rightarrow> py_exception + RuleData" where
  "new_bootloader_rule rd rule =
     (case shlex_split rule of
        Inl e \<Rightarrow> Inl e
      | Inr args \<Rightarrow>
          (case parse_args BOOTLOADER_RULE_PARSER args of
             Inl e \<Rightarrow> Inl e
           | Inr (opts, args') \<Rightarrow>
               (if opts ''passwd'' = PyBool True
                then Inr (rd\<lparr>bootloader_rules := require_password (bootloader_rules rd)\<rparr>)
                else Inr rd)))"

text \<open>
  \<^verbatim>\<open>new_rule\<close>: a \<^verbatim>\<open>KeyError\<close> of the lookup in \<^verbatim>\<open>actions\<close> becomes
  \<^verbatim>\<open>UknownRuleError\<close>; the handlers raise no \<^verbatim>\<open>KeyError\<close> of their own.
\<close>

definition actions :: "string \<Rightarrow> (RuleData \<Rightarrow> string \<Rightarrow> py_exception + RuleData) option" where
  "actions =
     map_of [(''part'', new_part_rule), (''passwd'', new_passwd_rule),
             (''package'', new_package_rule), (''bootloader'', new_bootloader_rule)]"

definition new_rule :: "RuleData \<Rightarrow> string \<Rightarrow> py_exception + RuleData" where
  "new_rule rd line =
     (let rule = py_strip line
      in if rule = [] then Inr rd
         else (case actions (first_word rule) of
                 None \<Rightarrow>
                   Inl (UknownRuleError
                         (''Unknown rule: '' @ [apostrophe] @ first_word rule @ [apostrophe]))
               | Some handler \<Rightarrow> handler rd rule))"

text \<open>
  \<open>load_rules\<close> feeds lines to \<^verbatim>\<open>new_rule\<close> one after the other and goes on after a line
  that raises; the rule data it returns are the ones a caller can build.
\<close>

definition load_rules :: "RuleData \<Rightarrow> string list \<Rightarrow> RuleData" where
  "load_rules rd lines =
     foldl (\<lambda>rd line. case new_rule rd line of Inl e \<Rightarrow> rd | Inr rd' \<Rightarrow> rd') rd lines"

section \<open>Rendering\<close>

text \<open>The \<^verbatim>\<open>__str__\<close> methods of the rule classes.\<close>

definition str_PartRule :: "PartRule \<Rightarrow> string" where
  "str_PartRule r =
     (''part '' @ mount_point r)
     @ (if mount_options r \<noteq> [] then '' --mountoptions='' @ join '','' (mount_options r) else [])"

definition newline :: char where
  "newline = CHR 0x0A"

definition str_PartRules :: "PartRules \<Rightarrow> string" where
  "str_PartRules rules = join [newline] (map (\<lambda>(k, r). str_PartRule r) rules)"

definition str_PasswdRules :: "PasswdRules \<Rightarrow> string" where
  "str_PasswdRules p = (if minlen p > 0 then ''passwd --minlen='' @ str_int (minlen p) else [])"

definition str_PackageRules :: "PackageRules \<Rightarrow> string" where
  "str_PackageRules p =
     (let ret = ''packages'';
          adds = join '' '' (map (\<lambda>package. ''--add='' @ package) (add_pkgs p));
          ret = (if adds \<noteq> [] then ret @ '' '' @ adds else ret);
          rems = join '' '' (map (\<lambda>package. ''--remove='' @ package) (remove_pkgs p));
          ret = (if rems \<noteq> [] then ret @ '' '' @ rems else ret)
      in ret)"

definition str_RuleData :: "RuleData \<Rightarrow> string" where
  "str_RuleData rd =
     (let ret = [];
          part_strs = str_PartRules (part_rules rd);
          ret = (if part_strs \<noteq> [] then ret @ part_strs else ret);
          passwd_str = str_PasswdRules (passwd_rules rd);
          ret = (if passwd_str \<noteq> [] then ret @ [newline] @ passwd_str else ret);
          packages_str = str_PackageRules (package_rules rd);
          ret = (if packages_str \<noteq> [] then ret @ [newline] @ packages_str else ret)
      in ret)"

section \<open>Auxiliary facts about the loops\<close>


lemma new_opts_loop_eq:
  "new_opts_loop mp present opts (s, ms) =
     (s @ concat (map (\<lambda>opt. CHR '','' # opt) (filter (\<lambda>opt. opt \<notin> set present) opts)),
      ms @ map (option_msg mp) (filter (\<lambda>opt. opt \<notin> set present) opts))"
  by (induction opts arbitrary: s ms) auto

lemma split_on_not_Nil: "split_on c s \<noteq> []"
  by (induction s) (auto split: list.splits)

lemma split_on_no_sep: "c \<notin> set s \<Longrightarrow> split_on c s = [s]"
  by (induction s) auto

lemma split_on_append_sep: "split_on c (s @ c # t) = split_on c s @ split_on c t"
  by (induction s) (auto split: list.splits simp: split_on_not_Nil)

lemma split_on_appended:
  "\<forall>opt\<in>set opts. c \<notin> set opt \<Longrightarrow>
   split_on c (s @ concat (map (\<lambda>opt. c # opt) opts)) = split_on c s @ opts"
proof (induction opts arbitrary: s)
  case Nil
  then show ?case by simp
next
  case (Cons a opts)
  have "split_on c (s @ concat (map (\<lambda>opt. c # opt) (a # opts)))
         = split_on c ((s @ c # a) @ concat (map (\<lambda>opt. c # opt) opts))" by simp
  also have "\<dots> = split_on c (s @ c # a) @ opts" using Cons.prems Cons.IH[of "s @ c # a"] by simp
  also have "\<dots> = split_on c s @ a # opts" using Cons.prems
    by (simp add: split_on_append_sep split_on_no_sep)
  finally show ?case .
qed

lemma extend_new_set: "set (extend_new cur opts) = set cur \<union> set opts"
  by (induction opts arbitrary: cur) auto

lemma extend_new_distinct: "distinct cur \<Longrightarrow> distinct (extend_new cur opts)"
  by (induction opts arbitrary: cur) auto

lemma remdups_drop_earlier: "a \<in> set ys \<Longrightarrow> remdups (xs @ a # ys) = remdups (xs @ ys)"
  by (induction xs) auto

lemma extend_new_first_seen: "distinct cur \<Longrightarrow> extend_new cur opts = rev (remdups (rev (cur @ opts)))"
proof (induction opts arbitrary: cur)
  case Nil
  then show ?case by (simp add: distinct_remdups_id)
next
  case (Cons a opts)
  show ?case
  proof (cases "a \<in> set cur")
    case True
    then show ?thesis using Cons by (simp add: remdups_drop_earlier)
  next
    case False
    then show ?thesis using Cons by simp
  qed
qed

lemma foldl_update_minlen_ge: "minlen p \<le> minlen (foldl update_minlen p vs)"
proof (induction vs arbitrary: p)
  case Nil
  then show ?case by simp
next
  case (Cons v vs)
  have "minlen p \<le> minlen (update_minlen p v)" by (simp add: update_minlen_def)
  also have "\<dots> \<le> minlen (foldl update_minlen (update_minlen p v) vs)" by (rule Cons.IH)
  finally show ?case by simp
qed

lemma extend_new_append: "extend_new cur (xs @ ys) = extend_new (extend_new cur xs) ys"
  by (induction xs arbitrary: cur) auto

lemma foldl_add_mount_options:
  "mount_options (foldl add_mount_options r calls) = extend_new (mount_options r) (concat calls)"
  by (induction calls arbitrary: r) (auto simp: add_mount_options_def extend_new_append)

lemma pkgs_loop_report_only: "fst (pkgs_loop mk True pkgs (lst, ms)) = lst"
  by (induction pkgs arbitrary: lst ms) auto

lemma pkgs_loop_msgs: "snd (pkgs_loop mk ro pkgs (lst, ms)) = ms @ map mk pkgs"
  by (induction pkgs arbitrary: lst ms) auto

lemma PartRule_eval_report_only: "snd (PartRule_eval_rules r st True) = st"
  by (auto simp: PartRule_eval_rules_def split: option.splits prod.splits)

lemma PartRules_eval_report_only: "snd (PartRules_eval_rules rules st True) = st"
proof (induction rules arbitrary: st)
  case Nil
  then show ?case by simp
next
  case (Cons a rules)
  obtain k r where a: "a = (k, r)" by (cases a)
  show ?case using Cons[of "snd (PartRule_eval_rules r st True)"] PartRule_eval_report_only[of r st]
    by (auto simp: a split: prod.splits)
qed

lemma PackageRules_eval_report_only: "snd (PackageRules_eval_rules p st True) = st"
proof -
  obtain l1 m1 where 1: "pkgs_loop added_msg True (add_pkgs p) (packageList st, []) = (l1, m1)"
    by fastforce
  obtain l2 m2 where 2: "pkgs_loop excluded_msg True (remove_pkgs p) (excludedList st, m1) = (l2, m2)"
    by fastforce
  have "l1 = packageList st"
    using pkgs_loop_report_only[of added_msg "add_pkgs p" "packageList st" "[]"] 1 by simp
  moreover have "l2 = excludedList st"
    using pkgs_loop_report_only[of excluded_msg "remove_pkgs p" "excludedList st" m1] 2 by simp
  ultimately show ?thesis using 1 2
    by (simp add: PackageRules_eval_rules_def)
qed

section \<open>Facts about evaluating twice\<close>

text \<open>
  Predicates used in the proofs only: \<open>options_present r st\<close> says that every option of the
  rule is an item of the option string of its mount point, when that is planned;
  \<open>grows st st'\<close> that \<open>st'\<close> plans the same mount points as \<open>st\<close> with at least the items
  of \<open>st\<close> in each option string; \<open>comma_free r\<close> that no option of the rule holds a comma;
  \<open>unplanned_msgs\<close> lists the Fatal messages of the rules whose mount point is not planned.
\<close>

definition options_present :: "PartRule \<Rightarrow> system_state \<Rightarrow> bool" where
  "options_present r st =
     (case mountpoints st (mount_point r) of
        None \<Rightarrow> True
      | Some s \<Rightarrow> set (mount_options r) \<subseteq> set (split_on CHR '','' s))"

definition grows :: "system_state \<Rightarrow> system_state \<Rightarrow> bool" where
  "grows st st' =
     (\<forall>mp. case mountpoints st mp of
             None \<Rightarrow> mountpoints st' mp = None
           | Some s \<Rightarrow> (\<exists>s'. mountpoints st' mp = Some s'
                          \<and> set (split_on CHR '','' s) \<subseteq> set (split_on CHR '','' s')))"

definition comma_free :: "PartRule \<Rightarrow> bool" where
  "comma_free r = (\<forall>opt\<in>set (mount_options r). CHR '','' \<notin> set opt)"

lemma grows_refl: "grows st st"
  by (auto simp: grows_def split: option.splits)

lemma grows_trans: "grows a b \<Longrightarrow> grows b c \<Longrightarrow> grows a c"
  unfolding grows_def
proof (intro allI)
  fix mp
  assume ab: "\<forall>mp. case mountpoints a mp of None \<Rightarrow> mountpoints b mp = None
           | Some s \<Rightarrow> (\<exists>s'. mountpoints b mp = Some s'
                          \<and> set (split_on CHR '','' s) \<subseteq> set (split_on CHR '','' s'))"
    and bc: "\<forall>mp. case mountpoints b mp of None \<Rightarrow> mountpoints c mp = None
           | Some s \<Rightarrow> (\<exists>s'. mountpoints c mp = Some s'
                          \<and> set (split_on CHR '','' s) \<subseteq> set (split_on CHR '','' s'))"
  show "case mountpoints a mp of None \<Rightarrow> mountpoints c mp = None
           | Some s \<Rightarrow> (\<exists>s'. mountpoints c mp = Some s'
                          \<and> set (split_on CHR '','' s) \<subseteq> set (split_on CHR '','' s'))"
    using ab[rule_format, of mp] bc[rule_format, of mp]
    by (auto split: option.splits)
qed

lemma grows_None: "grows st st' \<Longrightarrow> (mountpoints st' mp = None) = (mountpoints st mp = None)"
  unfolding grows_def by (erule allE[of _ mp]) (auto split: option.splits)

lemma options_present_grows: "options_present r st \<Longrightarrow> grows st st' \<Longrightarrow> options_present r st'"
  unfolding grows_def options_present_def
  by (erule allE[of _ "mount_point r"]) (auto split: option.splits)

lemma PartRule_eval_apply:
  assumes "comma_free r" and "PartRule_eval_rules r st False = (m, st')"
  shows "grows st st' \<and> options_present r st'
         \<and> packageList st' = packageList st \<and> excludedList st' = excludedList st"
proof (cases "mountpoints st (mount_point r)")
  case None
  then show ?thesis using assms(2)
    by (auto simp: PartRule_eval_rules_def grows_refl options_present_def)
next
  case (Some s)
  let ?missing = "filter (\<lambda>opt. opt \<notin> set (split_on CHR '','' s)) (mount_options r)"
  let ?s' = "s @ concat (map (\<lambda>opt. CHR '','' # opt) ?missing)"
  have st': "st' = st\<lparr>mountpoints := (mountpoints st)(mount_point r \<mapsto> ?s')\<rparr>"
    using assms(2) Some by (simp add: PartRule_eval_rules_def new_opts_loop_eq)
  have "\<forall>opt\<in>set ?missing. CHR '','' \<notin> set opt"
    using assms(1) by (simp add: comma_free_def)
  then have sp: "split_on CHR '','' ?s' = split_on CHR '','' s @ ?missing"
    by (rule split_on_appended)
  have g: "grows st st'"
    unfolding grows_def st' using Some sp by (auto split: option.splits)
  have p: "options_present r st'"
    unfolding options_present_def st' using sp by auto
  show ?thesis using g p by (simp add: st')
qed

lemma PartRule_eval_present:
  assumes "options_present r st"
  shows "PartRule_eval_rules r st report_only =
           (if mountpoints st (mount_point r) = None then [fatal_msg (mount_point r)] else [], st)"
proof (cases "mountpoints st (mount_point r)")
  case None
  then show ?thesis by (simp add: PartRule_eval_rules_def)
next
  case (Some s)
  have "filter (\<lambda>opt. opt \<notin> set (split_on CHR '','' s)) (mount_options r) = []"
    using assms Some by (auto simp: options_present_def filter_empty_conv)
  then show ?thesis using Some
    by (simp add: PartRule_eval_rules_def new_opts_loop_eq map_upd_triv)
qed


definition unplanned_msgs :: "PartRules \<Rightarrow> system_state \<Rightarrow> RuleMessage list" where
  "unplanned_msgs rules st =
     concat (map (\<lambda>(k, r). if mountpoints st (mount_point r) = None
                             then [fatal_msg (mount_point r)] else []) rules)"

lemma unplanned_msgs_grows: "grows st st' \<Longrightarrow> unplanned_msgs rules st' = unplanned_msgs rules st"
  by (simp add: unplanned_msgs_def grows_None)

lemma PartRules_eval_apply:
  assumes "\<forall>(k, r)\<in>set rules. comma_free r"
    and "PartRules_eval_rules rules st False = (m, st')"
  shows "grows st st' \<and> (\<forall>(k, r)\<in>set rules. options_present r st')
         \<and> packageList st' = packageList st \<and> excludedList st' = excludedList st"
  using assms
proof (induction rules arbitrary: st m st')
  case Nil
  then show ?case by (simp add: grows_refl)
next
  case (Cons a rules)
  obtain k r where a: "a = (k, r)" by (cases a)
  obtain m1 st1 where 1: "PartRule_eval_rules r st False = (m1, st1)" by fastforce
  obtain m2 st2 where 2: "PartRules_eval_rules rules st1 False = (m2, st2)" by fastforce
  have st2: "st' = st2" using Cons.prems(2) 1 2 by (simp add: a)
  have cf: "comma_free r" using Cons.prems(1) by (simp add: a)
  have h1: "grows st st1 \<and> options_present r st1
         \<and> packageList st1 = packageList st \<and> excludedList st1 = excludedList st"
    using PartRule_eval_apply[OF cf 1] .
  have h2: "grows st1 st2 \<and> (\<forall>(k, r)\<in>set rules. options_present r st2)
         \<and> packageList st2 = packageList st1 \<and> excludedList st2 = excludedList st1"
    using Cons.IH[OF _ 2] Cons.prems(1) by simp
  have "grows st st2" using h1 h2 grows_trans by blast
  moreover have "options_present r st2" using h1 h2 options_present_grows by blast
  ultimately show ?case using h1 h2 by (simp add: st2 a)
qed

lemma PartRules_eval_present:
  "\<forall>(k, r)\<in>set rules. options_present r st \<Longrightarrow>
   PartRules_eval_rules rules st report_only = (unplanned_msgs rules st, st)"
proof (induction rules)
  case Nil
  then show ?case by (simp add: unplanned_msgs_def)
next
  case (Cons a rules)
  obtain k r where a: "a = (k, r)" by (cases a)
  have "options_present r st" using Cons.prems by (simp add: a)
  then have 1: "PartRule_eval_rules r st report_only =
           (if mountpoints st (mount_point r) = None then [fatal_msg (mount_point r)] else [], st)"
    by (rule PartRule_eval_present)
  have 2: "PartRules_eval_rules rules st report_only = (unplanned_msgs rules st, st)"
    using Cons by simp
  show ?case using 1 2 by (simp add: a unplanned_msgs_def)
qed

lemma pkgs_loop_apply_set:
  "set (fst (pkgs_loop mk False pkgs (lst, ms))) = set lst \<union> set pkgs"
  by (induction pkgs arbitrary: lst ms) auto

lemma pkgs_loop_present:
  "set pkgs \<subseteq> set lst \<Longrightarrow> pkgs_loop mk report_only pkgs (lst, ms) = (lst, ms @ map mk pkgs)"
  by (induction pkgs arbitrary: ms) auto

lemma PackageRules_eval_apply:
  assumes "PackageRules_eval_rules p st False = (m, st')"
  shows "mountpoints st' = mountpoints st \<and> set (add_pkgs p) \<subseteq> set (packageList st')
         \<and> set (remove_pkgs p) \<subseteq> set (excludedList st')"
proof -
  obtain l1 m1 where 1: "pkgs_loop added_msg False (add_pkgs p) (packageList st, []) = (l1, m1)"
    by fastforce
  obtain l2 m2 where 2: "pkgs_loop excluded_msg False (remove_pkgs p) (excludedList st, m1) = (l2, m2)"
    by fastforce
  have "set l1 = set (packageList st) \<union> set (add_pkgs p)"
    using pkgs_loop_apply_set[of added_msg "add_pkgs p" "packageList st" "[]"] 1 by simp
  moreover have "set l2 = set (excludedList st) \<union> set (remove_pkgs p)"
    using pkgs_loop_apply_set[of excluded_msg "remove_pkgs p" "excludedList st" m1] 2 by simp
  moreover have "st' = st\<lparr>packageList := l1, excludedList := l2\<rparr>"
    using assms 1 2 by (simp add: PackageRules_eval_rules_def)
  ultimately show ?thesis by simp
qed

lemma PackageRules_eval_present:
  assumes "set (add_pkgs p) \<subseteq> set (packageList st)"
    and "set (remove_pkgs p) \<subseteq> set (excludedList st)"
  shows "PackageRules_eval_rules p st report_only =
           (map added_msg (add_pkgs p) @ map excluded_msg (remove_pkgs p), st)"
  using assms by (simp add: PackageRules_eval_rules_def pkgs_loop_present)

lemma options_present_cong:
  "mountpoints st' = mountpoints st \<Longrightarrow> options_present r st' = options_present r st"
  by (simp add: options_present_def)

lemma unplanned_msgs_cong:
  "mountpoints st' = mountpoints st \<Longrightarrow> unplanned_msgs rules st' = unplanned_msgs rules st"
  by (simp add: unplanned_msgs_def)

lemma RuleData_eval_twice:
  assumes cf: "\<forall>(k, r)\<in>set (part_rules rd). comma_free r"
    and e1: "RuleData_eval_rules rd st False = (m, st')"
  shows "RuleData_eval_rules rd st' False =
           (unplanned_msgs (part_rules rd) st
            @ fst (PasswdRules_eval_rules (passwd_rules rd) st False)
            @ map added_msg (add_pkgs (package_rules rd))
            @ map excluded_msg (remove_pkgs (package_rules rd)), st')"
proof -
  obtain m1 st1 where 1: "PartRules_eval_rules (part_rules rd) st False = (m1, st1)" by fastforce
  obtain m3 st3 where 3: "PackageRules_eval_rules (package_rules rd) st1 False = (m3, st3)"
    by fastforce
  have st3: "st' = st3" using e1 1 3
    by (simp add: RuleData_eval_rules_def PasswdRules_eval_rules_def BootloaderRules_eval_rules_def
          split: if_splits)
  note a1 = PartRules_eval_apply[OF cf 1]
  note a3 = PackageRules_eval_apply[OF 3]
  have pres: "\<forall>(k, r)\<in>set (part_rules rd). options_present r st3"
    using a1 a3 options_present_cong[of st3 st1] by auto
  have p1: "PartRules_eval_rules (part_rules rd) st3 False = (unplanned_msgs (part_rules rd) st3, st3)"
    using pres by (rule PartRules_eval_present)
  have u: "unplanned_msgs (part_rules rd) st3 = unplanned_msgs (part_rules rd) st"
    using a1 a3 unplanned_msgs_cong[of st3 st1] unplanned_msgs_grows[of st st1] by simp
  have p3: "PackageRules_eval_rules (package_rules rd) st3 False =
           (map added_msg (add_pkgs (package_rules rd))
            @ map excluded_msg (remove_pkgs (package_rules rd)), st3)"
    using a3 by (intro PackageRules_eval_present) auto
  show ?thesis using p1 p3 u
    by (simp add: st3 RuleData_eval_rules_def PasswdRules_eval_rules_def BootloaderRules_eval_rules_def)
qed

section \<open>Facts about stripping and the first word\<close>

lemma py_strip_all_space: "\<forall>c\<in>set line. is_space c \<Longrightarrow> py_strip line = []"
  by (auto simp: py_strip_def dest: set_dropWhileD)

lemma strip_decomp: "t = rev (dropWhile P (rev t)) @ rev (takeWhile P (rev t))"
proof -
  have "rev (takeWhile P (rev t) @ dropWhile P (rev t)) = t"
    by (simp only: takeWhile_dropWhile_id rev_rev_ident)
  then show ?thesis by (simp only: rev_append)
qed

lemma takeWhile_all_not: "\<forall>x\<in>set w. \<not> P x \<Longrightarrow> takeWhile P w = []"
  by (cases w) auto

lemma takeWhile_rstrip:
  "takeWhile (\<lambda>c. \<not> P c) (rev (dropWhile P (rev t))) = takeWhile (\<lambda>c. \<not> P c) t"
proof -
  let ?u = "rev (dropWhile P (rev t))" and ?w = "rev (takeWhile P (rev t))"
  have w: "\<forall>x\<in>set ?w. \<not> \<not> P x" by (auto dest: set_takeWhileD)
  have "takeWhile (\<lambda>c. \<not> P c) t = takeWhile (\<lambda>c. \<not> P c) (?u @ ?w)"
    using strip_decomp[of t P] by simp
  also have "\<dots> = takeWhile (\<lambda>c. \<not> P c) ?u"
  proof (cases "\<forall>x\<in>set ?u. \<not> P x")
    case True
    have "takeWhile (\<lambda>c. \<not> P c) (?u @ ?w) = ?u @ takeWhile (\<lambda>c. \<not> P c) ?w"
      using True by (intro takeWhile_append2) blast
    also have "\<dots> = ?u" using takeWhile_all_not[OF w] by (simp only: append_Nil2)
    also have "\<dots> = takeWhile (\<lambda>c. \<not> P c) ?u"
      using True by (metis takeWhile_eq_all_conv)
    finally show ?thesis .
  next
    case False
    then show ?thesis by (simp only: takeWhile_append if_False)
  qed
  finally show ?thesis by simp
qed

lemma py_strip_not_all_space:
  assumes "\<not> (\<forall>c\<in>set line. is_space c)"
  shows "py_strip line \<noteq> []"
    and "first_word (py_strip line) = takeWhile (\<lambda>c. \<not> is_space c) (dropWhile is_space line)"
proof -
  let ?t = "dropWhile is_space line"
  have t: "?t \<noteq> []" using assms by simp
  then have ht: "\<not> is_space (hd ?t)" by (rule hd_dropWhile)
  have "hd ?t \<in> set (rev ?t)" using t by simp
  then have d: "dropWhile is_space (rev ?t) \<noteq> []" using ht by auto
  then show ne: "py_strip line \<noteq> []" by (simp add: py_strip_def)
  have "hd (py_strip line) = hd ?t"
    using strip_decomp[of ?t is_space] ne
    by (metis hd_append2 py_strip_def)
  then have "\<not> is_space (hd (py_strip line))" using ht by simp
  then have "dropWhile is_space (py_strip line) = py_strip line"
    using ne by (cases "py_strip line") auto
  then show "first_word (py_strip line) = takeWhile (\<lambda>c. \<not> is_space c) ?t"
    by (simp add: first_word_def) (simp add: py_strip_def takeWhile_rstrip)
qed

lemma actions_None:
  "fw \<notin> {''part'', ''passwd'', ''package'', ''bootloader''} \<Longrightarrow> actions fw = None"
  by (simp add: actions_def)

section \<open>Invariants of the rule data\<close>

text \<open>
  What holds of the partition rules of every rule data built by \<open>new_rule\<close>: the keys are
  distinct and each is the mount point of its rule, and the options of a rule are distinct,
  not empty and free of commas (\<^verbatim>\<open>parse_csv\<close> splits the value of \<^verbatim>\<open>--mountoptions\<close> on
  commas and drops the empty items).
\<close>

definition opts_ok :: "string list \<Rightarrow> bool" where
  "opts_ok xs = (\<forall>x\<in>set xs. x \<noteq> [] \<and> CHR '','' \<notin> set x)"

definition csv_values_ok :: "Values \<Rightarrow> bool" where
  "csv_values_ok vals = (case vals ''mount_options'' of PyList xs \<Rightarrow> opts_ok xs | _ \<Rightarrow> True)"

definition rules_ok :: "PartRules \<Rightarrow> bool" where
  "rules_ok rules =
     (distinct (map fst rules)
      \<and> (\<forall>(k, r)\<in>set rules. k = mount_point r \<and> distinct (mount_options r)
                               \<and> opts_ok (mount_options r)))"

lemma split_on_items_no_sep: "x \<in> set (split_on c s) \<Longrightarrow> c \<notin> set x"
proof (induction s arbitrary: x)
  case Nil
  then show ?case by simp
next
  case (Cons a s)
  show ?case
  proof (cases "a = c")
    case True
    then show ?thesis using Cons by auto
  next
    case False
    obtain w ws where sp: "split_on c s = w # ws"
      using split_on_not_Nil[of c s] by (cases "split_on c s") auto
    then have "x = a # w \<or> x \<in> set ws" using Cons.prems False by simp
    moreover have "c \<notin> set w" using Cons.IH[of w] sp by simp
    moreover have "x \<in> set ws \<Longrightarrow> c \<notin> set x" using Cons.IH[of x] sp by simp
    ultimately show ?thesis using False by auto
  qed
qed

lemma ensure_value_append_ok:
  "csv_values_ok vals \<Longrightarrow> item \<noteq> [] \<Longrightarrow> CHR '','' \<notin> set item \<Longrightarrow>
   csv_values_ok (ensure_value_append vals ''mount_options'' item)"
  by (auto simp: csv_values_ok_def ensure_value_append_def opts_ok_def split: py_value.splits)

lemma parse_csv_loop_ok:
  "csv_values_ok vals \<Longrightarrow> \<forall>x\<in>set items. CHR '','' \<notin> set x \<Longrightarrow>
   csv_values_ok (parse_csv_loop ''mount_options'' items vals)"
  by (induction items arbitrary: vals) (auto simp: ensure_value_append_ok)

lemma parse_csv_ok:
  "csv_values_ok vals \<Longrightarrow> csv_values_ok (parse_csv ''mount_options'' v vals)"
  unfolding parse_csv_def by (rule parse_csv_loop_ok) (auto dest: split_on_items_no_sep)

lemma match_long_opt_in:
  "match_long_opt P s = Some (n, opt) \<Longrightarrow> opt \<in> set (option_list P)"
proof -
  assume m: "match_long_opt P s = Some (n, opt)"
  have "(n, opt) \<in> set (long_opt_map P)"
  proof (cases "filter (\<lambda>(n, opt). n = s) (long_opt_map P)")
    case Nil
    then have "filter (\<lambda>(n, opt). take (length s) n = s) (long_opt_map P) = [(n, opt)]"
      using m by (auto simp: match_long_opt_def split: list.splits)
    then have "(n, opt) \<in> set (filter (\<lambda>(n, opt). take (length s) n = s) (long_opt_map P))"
      by simp
    then show ?thesis by simp
  next
    case (Cons a list)
    then have "a = (n, opt)" using m by (simp add: match_long_opt_def)
    then have "(n, opt) \<in> set (filter (\<lambda>(n, opt). n = s) (long_opt_map P))"
      using Cons by simp
    then show ?thesis by auto
  qed
  then show ?thesis by (auto simp: long_opt_map_def)
qed

lemma PART_options:
  "opt \<in> set (option_list PART_RULE_PARSER) \<Longrightarrow>
   action opt = Without_value Help
   \<or> (action opt = With_value Callback_parse_csv \<and> dest opt = ''mount_options'')"
  by (auto simp: PART_RULE_PARSER_def help_option_def)

lemma process_long_opt_PART_ok:
  assumes "process_long_opt PART_RULE_PARSER arg rargs vals = Inr (vals', rargs')"
    and "csv_values_ok vals"
  shows "csv_values_ok vals'"
proof -
  obtain opt explicit where se: "split_eq arg = (opt, explicit)" by fastforce
  obtain n option where m: "match_long_opt PART_RULE_PARSER opt = Some (n, option)"
    using assms(1) se by (auto simp: process_long_opt_def Let_def split: option.splits)
  have "action option = Without_value Help
   \<or> (action option = With_value Callback_parse_csv \<and> dest option = ''mount_options'')"
    using match_long_opt_in[OF m] by (rule PART_options)
  then show ?thesis
    using assms se m
    by (auto simp: process_long_opt_def Let_def process_flag_def process_value_def parse_csv_ok
          split: option.splits list.splits if_splits)
qed

lemma process_short_opts_PART_ok:
  "process_short_opts PART_RULE_PARSER chs rargs vals = Inr (vals', rargs') \<Longrightarrow>
   csv_values_ok vals \<Longrightarrow> csv_values_ok vals'"
proof (induction chs arbitrary: vals)
  case Nil
  then show ?case by simp
next
  case (Cons ch chs)
  obtain option where f: "find (\<lambda>opt. [CHR ''-'', ch] \<in> set (short_opts opt))
                            (option_list PART_RULE_PARSER) = Some option"
    using Cons.prems(1) by (auto split: option.splits)
  then have "option \<in> set (option_list PART_RULE_PARSER)"
    by (auto simp: find_Some_iff)
  then have "action option = Without_value Help
   \<or> (action option = With_value Callback_parse_csv \<and> dest option = ''mount_options'')"
    by (rule PART_options)
  then show ?case using Cons.prems f
    by (auto simp: process_flag_def process_value_def parse_csv_ok
          split: list.splits if_splits)
qed

lemma process_args_PART_ok:
  "process_args P args largs vals = Inr (vals', args') \<Longrightarrow> P = PART_RULE_PARSER \<Longrightarrow>
   csv_values_ok vals \<Longrightarrow> csv_values_ok vals'"
proof (induction P args largs vals rule: process_args.induct)
  case (1 P largs vals)
  then show ?case by simp
next
  case (2 P arg rargs largs vals)
  show ?case
  proof (cases "arg = ''--''")
    case True
    then show ?thesis using 2 by simp
  next
    case nd: False
    show ?thesis
    proof (cases "take 2 arg = ''--''")
      case True
      obtain v1 r1 where pl: "process_long_opt P arg rargs vals = Inr (v1, r1)"
        using "2.prems"(1) nd True by (auto split: sum.splits)
      have "csv_values_ok v1"
        using process_long_opt_PART_ok pl "2.prems" by blast
      then show ?thesis using "2.IH"(1)[OF nd True _ _ ] pl "2.prems" nd True
        by (auto split: sum.splits)
    next
      case nl: False
      show ?thesis
      proof (cases "take 1 arg = ''-'' \<and> length arg > 1")
        case True
        obtain v1 r1 where ps: "process_short_opts P (drop 1 arg) rargs vals = Inr (v1, r1)"
          using "2.prems"(1) nd nl True by (auto split: sum.splits)
        have "csv_values_ok v1"
          using process_short_opts_PART_ok ps "2.prems" by blast
        then show ?thesis using "2.IH"(2)[OF nd nl True] ps "2.prems" nd nl True
          by (auto split: sum.splits)
      next
        case False
        then show ?thesis using "2.IH"(3)[OF nd nl False] "2.prems" nd nl
          by (auto split: sum.splits)
      qed
    qed
  qed
qed

lemma rules_ok_Nil: "rules_ok []"
  by (simp add: rules_ok_def)

lemma ensure_mount_point_ok: "rules_ok rules \<Longrightarrow> rules_ok (ensure_mount_point rules mp)"
  by (auto simp: rules_ok_def ensure_mount_point_def PartRule_init_def opts_ok_def)

lemma update_rule_keys: "map fst (update_rule rules key f) = map fst rules"
  by (induction rules) auto

lemma update_rule_set:
  "(k, r) \<in> set (update_rule rules key f) \<Longrightarrow>
   (k, r) \<in> set rules \<or> (\<exists>r0. (k, r0) \<in> set rules \<and> r = f r0)"
proof (induction rules)
  case Nil
  then show ?case by simp
next
  case (Cons a rules)
  obtain k0 r0 where a: "a = (k0, r0)" by (cases a)
  show ?case
  proof (cases "k0 = key")
    case True
    then have "(k, r) = (k0, f r0) \<or> (k, r) \<in> set rules" using Cons.prems a by simp
    then show ?thesis using a by auto
  next
    case False
    then have "(k, r) = (k0, r0) \<or> (k, r) \<in> set (update_rule rules key f)"
      using Cons.prems a by simp
    then show ?thesis using a Cons.IH by auto
  qed
qed

lemma add_mount_options_ok:
  "distinct (mount_options r) \<Longrightarrow> opts_ok (mount_options r) \<Longrightarrow> opts_ok new_opts \<Longrightarrow>
   mount_point (add_mount_options r new_opts) = mount_point r
   \<and> distinct (mount_options (add_mount_options r new_opts))
   \<and> opts_ok (mount_options (add_mount_options r new_opts))"
  by (auto simp: add_mount_options_def extend_new_distinct extend_new_set opts_ok_def)

lemma update_rule_ok:
  assumes "rules_ok rules" and "opts_ok new_opts"
  shows "rules_ok (update_rule rules key (\<lambda>r. add_mount_options r new_opts))"
proof -
  have "distinct (map fst (update_rule rules key (\<lambda>r. add_mount_options r new_opts)))"
    using assms(1) by (simp add: update_rule_keys rules_ok_def)
  moreover have "k = mount_point r \<and> distinct (mount_options r) \<and> opts_ok (mount_options r)"
    if "(k, r) \<in> set (update_rule rules key (\<lambda>r. add_mount_options r new_opts))" for k r
  proof -
    from update_rule_set[OF that]
    consider "(k, r) \<in> set rules"
      | r0 where "(k, r0) \<in> set rules" "r = add_mount_options r0 new_opts"
      by blast
    then show ?thesis
    proof cases
      case 1
      then show ?thesis using assms(1) by (auto simp: rules_ok_def)
    next
      case 2
      then have "k = mount_point r0 \<and> distinct (mount_options r0) \<and> opts_ok (mount_options r0)"
        using assms(1) by (auto simp: rules_ok_def)
      then show ?thesis using add_mount_options_ok[of r0 new_opts] assms(2) 2 by simp
    qed
  qed
  ultimately show ?thesis by (auto simp: rules_ok_def)
qed

lemma csv_values_ok_defaults: "csv_values_ok (defaults PART_RULE_PARSER)"
  by (simp add: csv_values_ok_def PART_RULE_PARSER_def)

lemma new_part_rule_ok:
  assumes "new_part_rule rd rule = Inr rd'" and "rules_ok (part_rules rd)"
  shows "rules_ok (part_rules rd')"
proof -
  obtain args where sp: "shlex_split rule = Inr args"
    using assms(1) by (auto simp: new_part_rule_def split: sum.splits)
  obtain opts args' where pa: "parse_args PART_RULE_PARSER args = Inr (opts, args')"
    using assms(1) sp by (auto simp: new_part_rule_def split: sum.splits)
  have ok: "csv_values_ok opts"
    using pa process_args_PART_ok[of PART_RULE_PARSER args "[]" "defaults PART_RULE_PARSER" opts args']
      csv_values_ok_defaults by (simp add: parse_args_def)
  let ?rules = "ensure_mount_point (part_rules rd) (args' ! 1)"
  have e: "rules_ok ?rules" using assms(2) by (rule ensure_mount_point_ok)
  show ?thesis
  proof (cases "opts ''mount_options''")
    case (PyList mount_opts)
    then have "opts_ok mount_opts" using ok by (simp add: csv_values_ok_def)
    then have "rules_ok (update_rule ?rules (args' ! 1) (\<lambda>r. add_mount_options r mount_opts))"
      using e update_rule_ok by blast
    then show ?thesis using assms(1) sp pa PyList e
      by (auto simp: new_part_rule_def Let_def split: if_splits)
  qed (use assms(1) sp pa e in \<open>auto simp: new_part_rule_def Let_def split: if_splits\<close>)
qed

lemma new_passwd_rule_part: "new_passwd_rule rd rule = Inr rd' \<Longrightarrow> part_rules rd' = part_rules rd"
  by (auto simp: new_passwd_rule_def split: sum.splits py_value.splits)

lemma new_package_rule_part: "new_package_rule rd rule = Inr rd' \<Longrightarrow> part_rules rd' = part_rules rd"
  by (auto simp: new_package_rule_def split: sum.splits)

lemma new_bootloader_rule_part:
  "new_bootloader_rule rd rule = Inr rd' \<Longrightarrow> part_rules rd' = part_rules rd"
  by (auto simp: new_bootloader_rule_def split: sum.splits if_splits)

lemma actions_cases:
  "actions fw = Some handler \<Longrightarrow>
   (fw = ''part'' \<and> handler = new_part_rule) \<or> (fw = ''passwd'' \<and> handler = new_passwd_rule)
   \<or> (fw = ''package'' \<and> handler = new_package_rule)
   \<or> (fw = ''bootloader'' \<and> handler = new_bootloader_rule)"
  by (auto simp: actions_def split: if_splits)

lemma new_rule_ok:
  assumes "new_rule rd line = Inr rd'" and "rules_ok (part_rules rd)"
  shows "rules_ok (part_rules rd')"
proof (cases "py_strip line = []")
  case True
  then show ?thesis using assms by (simp add: new_rule_def)
next
  case False
  then obtain handler where h: "actions (first_word (py_strip line)) = Some handler"
    and r: "handler rd (py_strip line) = Inr rd'"
    using assms(1) by (auto simp: new_rule_def Let_def split: option.splits)
  from actions_cases[OF h] show ?thesis
    using r assms(2) new_part_rule_ok new_passwd_rule_part new_package_rule_part
      new_bootloader_rule_part by (elim disjE conjE) auto
qed

lemma load_rules_ok: "rules_ok (part_rules rd) \<Longrightarrow> rules_ok (part_rules (load_rules rd lines))"
  unfolding load_rules_def
proof (induction lines arbitrary: rd)
  case Nil
  then show ?case by simp
next
  case (Cons l lines)
  have "rules_ok (part_rules (case new_rule rd l of Inl e \<Rightarrow> rd | Inr rd' \<Rightarrow> rd'))"
    using Cons.prems new_rule_ok by (auto split: sum.splits)
  then show ?case using Cons.IH by simp
qed

lemma rules_ok_comma_free: "rules_ok rules \<Longrightarrow> \<forall>(k, r)\<in>set rules. comma_free r"
  by (auto simp: rules_ok_def comma_free_def opts_ok_def)

lemma RuleData_init_ok: "rules_ok (part_rules RuleData_init)"
  by (simp add: RuleData_init_def rules_ok_Nil)

section \<open>Properties of the evaluation\<close>

text \<open>
  C5.  A partition rule whose mount point is not among the planned mount points evaluates
  to exactly one Fatal message, saying that the mount point must be on a separate
  partition or logical volume, and to the system state it was given, whatever the mode.
\<close>

theorem unplanned_mount_point_fatal:
  "mountpoints st (mount_point r) = None \<Longrightarrow>
   PartRule_eval_rules r st report_only =
     ([RuleMessage MESSAGE_TYPE_FATAL
         (mount_point r @ '' must be on a separate partition or logical volume'')], st)"
  by (simp add: PartRule_eval_rules_def fatal_msg_def)

theorem unplanned_mount_point_fatal_witness:
  "mountpoints \<lparr>mountpoints = [''/tmp'' \<mapsto> ''defaults''], packageList = [], excludedList = []\<rparr>
     (mount_point \<lparr>mount_point = ''/opt'', mount_options = [''noexec'']\<rparr>) = None
   \<and> PartRule_eval_rules \<lparr>mount_point = ''/opt'', mount_options = [''noexec'']\<rparr>
       \<lparr>mountpoints = [''/tmp'' \<mapsto> ''defaults''], packageList = [], excludedList = []\<rparr> False
     = ([RuleMessage MESSAGE_TYPE_FATAL ''/opt must be on a separate partition or logical volume''],
        \<lparr>mountpoints = [''/tmp'' \<mapsto> ''defaults''], packageList = [], excludedList = []\<rparr>)"
  using unplanned_mount_point_fatal
    [of "\<lparr>mountpoints = [''/tmp'' \<mapsto> ''defaults''], packageList = [], excludedList = []\<rparr>"
        "\<lparr>mount_point = ''/opt'', mount_options = [''noexec'']\<rparr>" False]
  by simp

text \<open>
  C6.  \<open>update_minlen\<close> stores the maximum of the stored minimum length and its argument, so
  over any sequence of calls the stored value never decreases: after a longer sequence it
  is at least what it was after any prefix.  Starting from 0, the calls with 5 and then 2
  leave 5.
\<close>

theorem update_minlen_monotone:
  "minlen (update_minlen p v) = max (minlen p) v
   \<and> minlen (foldl update_minlen p us) \<le> minlen (foldl update_minlen p (us @ ws))
   \<and> minlen (update_minlen (update_minlen (p\<lparr>minlen := 0\<rparr>) 5) 2) = 5"
  using foldl_update_minlen_ge[of "foldl update_minlen p us" ws]
  by (simp add: update_minlen_def)

text \<open>
  C7.  Evaluating the password rules returns exactly one Warning message, whose text holds
  the stored minimum length in decimal, when that length is positive, and no message
  otherwise; the system state is returned as it was given, whatever the mode.  For the rule
  data built from the line \<^verbatim>\<open>passwd --minlen=8\<close>, the whole evaluation returns exactly the
  Warning with the number 8 and the state as it was given.
\<close>

theorem passwd_eval_warning:
  "PasswdRules_eval_rules p st report_only =
     (if minlen p > 0
      then [RuleMessage MESSAGE_TYPE_WARNING
              (''make sure to create password with minimal length of '' @ str_int (minlen p)
               @ '' characters'')]
      else [], st)
   \<and> RuleData_eval_rules (load_rules RuleData_init [''passwd --minlen=8'']) st report_only
     = ([RuleMessage MESSAGE_TYPE_WARNING
           ''make sure to create password with minimal length of 8 characters''], st)"
proof -
  have 1: "load_rules RuleData_init [''passwd --minlen=8'']
           = \<lparr>part_rules = [], passwd_rules = \<lparr>minlen = 8\<rparr>,
              package_rules = \<lparr>add_pkgs = [], remove_pkgs = []\<rparr>,
              bootloader_rules = \<lparr>require_password_flag = False\<rparr>\<rparr>"
    by code_simp
  have 2: "str_int 8 = ''8''" by code_simp
  show ?thesis
    by (simp add: 1 2 RuleData_eval_rules_def PasswdRules_eval_rules_def PackageRules_eval_rules_def
          BootloaderRules_eval_rules_def minlen_msg_def)
qed

text \<open>
  C8.  Starting from a rule whose options are distinct (a new rule has none), after any
  sequence of \<open>add_mount_options\<close> calls the stored options are distinct and are the options
  of all the calls in the order of their first occurrence (\<open>rev \<circ> remdups \<circ> rev\<close> keeps the
  first occurrence of each element); adding an option that is already stored changes
  nothing.
\<close>

theorem add_mount_options_first_seen:
  "distinct (mount_options r) \<Longrightarrow>
   distinct (mount_options (foldl add_mount_options r calls))
   \<and> mount_options (foldl add_mount_options r calls)
       = rev (remdups (rev (mount_options r @ concat calls)))
   \<and> (opt \<in> set (mount_options r) \<longrightarrow> add_mount_options r [opt] = r)"
proof -
  assume d: "distinct (mount_options r)"
  have 1: "distinct (mount_options (foldl add_mount_options r calls))"
    using d by (simp only: foldl_add_mount_options extend_new_distinct)
  have 2: "mount_options (foldl add_mount_options r calls)
           = rev (remdups (rev (mount_options r @ concat calls)))"
    using d by (simp only: foldl_add_mount_options extend_new_first_seen)
  have 3: "opt \<in> set (mount_options r) \<longrightarrow> add_mount_options r [opt] = r"
    by (simp add: add_mount_options_def)
  from 1 2 3 show ?thesis by blast
qed

theorem add_mount_options_first_seen_witness:
  "distinct (mount_options (PartRule_init ''/tmp''))
   \<and> mount_options (foldl add_mount_options (PartRule_init ''/tmp'')
         [[''nodev'', ''nosuid'', ''nodev''], [''noexec'', ''nosuid'']])
       = [''nodev'', ''nosuid'', ''noexec'']
   \<and> add_mount_options (add_mount_options (PartRule_init ''/tmp'') [''nodev'']) [''nodev'']
       = add_mount_options (PartRule_init ''/tmp'') [''nodev'']"
  using add_mount_options_first_seen[of "PartRule_init ''/tmp''"
          "[[''nodev'', ''nosuid'', ''nodev''], [''noexec'', ''nosuid'']]" "''x''"]
        add_mount_options_first_seen[of "add_mount_options (PartRule_init ''/tmp'') [''nodev'']"
          "[]" "''nodev''"]
  by (simp add: PartRule_init_def add_mount_options_def)

text \<open>
  C9.  Evaluation in report-only mode returns the system state it was given: mount option
  strings, install list and exclude list are all unchanged.
\<close>

theorem report_only_no_mutation:
  "snd (RuleData_eval_rules rd st True) = st"
proof -
  obtain m1 st1 where 1: "PartRules_eval_rules (part_rules rd) st True = (m1, st1)" by fastforce
  obtain m3 st3 where 3: "PackageRules_eval_rules (package_rules rd) st True = (m3, st3)" by fastforce
  have "st1 = st" using PartRules_eval_report_only[of "part_rules rd" st] 1 by simp
  moreover have "st3 = st" using PackageRules_eval_report_only[of "package_rules rd" st] 3 by simp
  ultimately show ?thesis using 1 3
    by (simp add: RuleData_eval_rules_def PasswdRules_eval_rules_def BootloaderRules_eval_rules_def)
qed

text \<open>
  C10.  When the mount point of a rule is planned and some of its options are missing from
  the option string, evaluation in apply mode appends every missing option with a comma
  before it.  An empty option string therefore becomes one that starts with a comma, and
  splitting it on commas gives an empty first item.
\<close>

theorem apply_appends_comma_prefixed:
  "mountpoints st (mount_point r) = Some options \<Longrightarrow>
   filter (\<lambda>opt. opt \<notin> set (split_on CHR '','' options)) (mount_options r) = missing \<Longrightarrow>
   missing \<noteq> [] \<Longrightarrow>
   snd (PartRule_eval_rules r st False)
     = st\<lparr>mountpoints := (mountpoints st)
            (mount_point r \<mapsto> options @ concat (map (\<lambda>opt. CHR '','' # opt) missing))\<rparr>
   \<and> (options = [] \<longrightarrow>
        take 1 (concat (map (\<lambda>opt. CHR '','' # opt) missing)) = '',''
        \<and> hd (split_on CHR '','' (concat (map (\<lambda>opt. CHR '','' # opt) missing))) = [])"
proof -
  assume planned: "mountpoints st (mount_point r) = Some options"
    and missing: "filter (\<lambda>opt. opt \<notin> set (split_on CHR '','' options)) (mount_options r) = missing"
    and ne: "missing \<noteq> []"
  have 1: "snd (PartRule_eval_rules r st False)
     = st\<lparr>mountpoints := (mountpoints st)
            (mount_point r \<mapsto> options @ concat (map (\<lambda>opt. CHR '','' # opt) missing))\<rparr>"
    using planned missing by (simp add: PartRule_eval_rules_def new_opts_loop_eq)
  obtain a rest where "missing = a # rest" using ne by (cases missing) auto
  then have 2: "take 1 (concat (map (\<lambda>opt. CHR '','' # opt) missing)) = '',''
        \<and> hd (split_on CHR '','' (concat (map (\<lambda>opt. CHR '','' # opt) missing))) = []"
    by simp
  from 1 2 show ?thesis by blast
qed

theorem apply_appends_comma_prefixed_witness:
  "mountpoints \<lparr>mountpoints = [''/tmp'' \<mapsto> ''''], packageList = [], excludedList = []\<rparr>
     (mount_point \<lparr>mount_point = ''/tmp'', mount_options = [''nodev'', ''nosuid'']\<rparr>) = Some ''''
   \<and> filter (\<lambda>opt. opt \<notin> set (split_on CHR '','' ''''))
        (mount_options \<lparr>mount_point = ''/tmp'', mount_options = [''nodev'', ''nosuid'']\<rparr>)
      = [''nodev'', ''nosuid'']
   \<and> snd (PartRule_eval_rules \<lparr>mount_point = ''/tmp'', mount_options = [''nodev'', ''nosuid'']\<rparr>
        \<lparr>mountpoints = [''/tmp'' \<mapsto> ''''], packageList = [], excludedList = []\<rparr> False)
      = \<lparr>mountpoints = [''/tmp'' \<mapsto> '',nodev,nosuid''], packageList = [], excludedList = []\<rparr>
   \<and> split_on CHR '','' '',nodev,nosuid'' = ['''', ''nodev'', ''nosuid'']"
  using apply_appends_comma_prefixed
    [of "\<lparr>mountpoints = [''/tmp'' \<mapsto> ''''], packageList = [], excludedList = []\<rparr>"
        "\<lparr>mount_point = ''/tmp'', mount_options = [''nodev'', ''nosuid'']\<rparr>" "''''"
        "[''nodev'', ''nosuid'']"]
  by simp

section \<open>Properties of adding rules\<close>

text \<open>
  C4.  A line that is empty or all whitespace leaves the rule data unchanged and raises
  nothing.  For any other line, when its first word (the characters from the first one that
  is not whitespace up to the next whitespace) is none of \<^verbatim>\<open>part\<close>, \<^verbatim>\<open>passwd\<close>,
  \<^verbatim>\<open>package\<close>, \<^verbatim>\<open>bootloader\<close>, \<open>new_rule\<close> raises \<^verbatim>\<open>UknownRuleError\<close> with a
  message naming that word.
\<close>

theorem new_rule_blank_or_unknown:
  "((\<forall>c\<in>set line. is_space c) \<longrightarrow> new_rule rd line = Inr rd)
   \<and> (\<not> (\<forall>c\<in>set line. is_space c)
        \<and> takeWhile (\<lambda>c. \<not> is_space c) (dropWhile is_space line)
            \<notin> {''part'', ''passwd'', ''package'', ''bootloader''}
      \<longrightarrow> new_rule rd line
          = Inl (UknownRuleError
                  (''Unknown rule: '' @ [apostrophe]
                   @ takeWhile (\<lambda>c. \<not> is_space c) (dropWhile is_space line) @ [apostrophe])))"
proof (intro conjI impI)
  assume "\<forall>c\<in>set line. is_space c"
  then show "new_rule rd line = Inr rd"
    by (simp add: new_rule_def py_strip_all_space)
next
  assume a: "\<not> (\<forall>c\<in>set line. is_space c)
        \<and> takeWhile (\<lambda>c. \<not> is_space c) (dropWhile is_space line)
            \<notin> {''part'', ''passwd'', ''package'', ''bootloader''}"
  then have 1: "py_strip line \<noteq> []"
    and 2: "first_word (py_strip line) = takeWhile (\<lambda>c. \<not> is_space c) (dropWhile is_space line)"
    using py_strip_not_all_space by blast+
  have 3: "actions (first_word (py_strip line)) = None"
    using a 2 actions_None by simp
  show "new_rule rd line
          = Inl (UknownRuleError
                  (''Unknown rule: '' @ [apostrophe]
                   @ takeWhile (\<lambda>c. \<not> is_space c) (dropWhile is_space line) @ [apostrophe]))"
    using 1 2 3 by (simp add: new_rule_def Let_def)
qed

theorem new_rule_blank_or_unknown_witness:
  "is_space CHR '' '' \<and> is_space CHR 0x09
   \<and> new_rule RuleData_init [CHR '' '', CHR 0x09] = Inr RuleData_init
   \<and> new_rule RuleData_init [] = Inr RuleData_init
   \<and> \<not> is_space CHR ''f''
   \<and> takeWhile (\<lambda>c. \<not> is_space c) (dropWhile is_space ''foo --bar'') = ''foo''
   \<and> new_rule RuleData_init ''foo --bar''
       = Inl (UknownRuleError (''Unknown rule: '' @ [apostrophe] @ ''foo'' @ [apostrophe]))"
  using new_rule_blank_or_unknown[of "[CHR '' '', CHR 0x09]" RuleData_init]
        new_rule_blank_or_unknown[of "[]" RuleData_init]
        new_rule_blank_or_unknown[of "''foo --bar''" RuleData_init]
  by (simp add: is_space_def)

section \<open>Evaluating twice\<close>

text \<open>
  C1, as amended.  For the rule data built from any lines and any system state, a second
  evaluation in apply mode, against the state the first one returned, returns that state
  unchanged.  Its messages are the Fatal messages of the mount points that are not planned,
  the Warning of the password rules, and one Info message for every package of the install
  set and of the exclude set: no Info message for a mount option, but the package messages
  are repeated, since \<^verbatim>\<open>PackageRules.eval_rules\<close> appends its message whether or not it
  appended the package.
\<close>

theorem eval_twice_same_state:
  "(let rd = load_rules RuleData_init lines;
        (m1, st1) = RuleData_eval_rules rd st False;
        (m2, st2) = RuleData_eval_rules rd st1 False
    in st2 = st1
       \<and> m2 = concat (map (\<lambda>(k, r). if mountpoints st (mount_point r) = None
                                     then [fatal_msg (mount_point r)] else []) (part_rules rd))
              @ (if minlen (passwd_rules rd) > 0 then [minlen_msg (minlen (passwd_rules rd))] else [])
              @ map added_msg (add_pkgs (package_rules rd))
              @ map excluded_msg (remove_pkgs (package_rules rd)))"
proof -
  let ?rd = "load_rules RuleData_init lines"
  obtain m1 st1 where 1: "RuleData_eval_rules ?rd st False = (m1, st1)" by fastforce
  have cf: "\<forall>(k, r)\<in>set (part_rules ?rd). comma_free r"
    using load_rules_ok[OF RuleData_init_ok] by (rule rules_ok_comma_free)
  have 2: "RuleData_eval_rules ?rd st1 False =
           (unplanned_msgs (part_rules ?rd) st
            @ fst (PasswdRules_eval_rules (passwd_rules ?rd) st False)
            @ map added_msg (add_pkgs (package_rules ?rd))
            @ map excluded_msg (remove_pkgs (package_rules ?rd)), st1)"
    using cf 1 by (rule RuleData_eval_twice)
  have 3: "fst (PasswdRules_eval_rules (passwd_rules ?rd) st False)
           = (if minlen (passwd_rules ?rd) > 0 then [minlen_msg (minlen (passwd_rules ?rd))] else [])"
    by (simp add: PasswdRules_eval_rules_def)
  show ?thesis
    by (simp only: Let_def 1 2 3 unplanned_msgs_def prod.case)
qed

text \<open>
  The claim as stated fails: after \<^verbatim>\<open>package --add=vim\<close> the first evaluation puts \<^verbatim>\<open>vim\<close>
  on the install list, and the second one still returns the Info message for it.
\<close>

theorem eval_twice_package_messages_repeat:
  "(let rd = load_rules RuleData_init [''package --add=vim''];
        st = \<lparr>mountpoints = Map.empty, packageList = [], excludedList = []\<rparr>;
        (m1, st1) = RuleData_eval_rules rd st False;
        (m2, st2) = RuleData_eval_rules rd st1 False
    in packageList st1 = [''vim'']
       \<and> m2 = [RuleMessage MESSAGE_TYPE_INFO
                 (''package '' @ [apostrophe] @ ''vim'' @ [apostrophe]
                  @ '' has been added to the list of to be installed packages'')])"
  by code_simp

section \<open>Malformed directives\<close>











lemma split_eq_attached:
  "CHR ''='' \<notin> set name \<Longrightarrow> split_eq (name @ CHR ''='' # v) = (name, Some v)"
proof -
  assume n: "CHR ''='' \<notin> set name"
  have t: "takeWhile (\<lambda>c. c \<noteq> CHR ''='') (name @ CHR ''='' # v) = name"
    using n by (induction name) auto
  have d: "dropWhile (\<lambda>c. c \<noteq> CHR ''='') (name @ CHR ''='' # v) = CHR ''='' # v"
    using n by (induction name) auto
  show ?thesis by (simp add: split_eq_def t d)
qed


lemma long_mountoptions_attached:
  "process_long_opt PART_RULE_PARSER (''--mountoptions='' @ v) rargs vals
     = Inr (parse_csv ''mount_options'' v vals, rargs)"
  using split_eq_attached[of "''--mountoptions''" v]
  by (simp add: process_long_opt_def match_long_opt_def long_opt_map_def PART_RULE_PARSER_def
        help_option_def process_value_def)


lemma long_minlen_attached:
  "process_long_opt PASSWD_RULE_PARSER (''--minlen='' @ v) rargs vals
     = (case parse_num v of
          None \<Rightarrow> Inl (SystemExit 2)
        | Some n \<Rightarrow> Inr (vals(''minlen'' := PyInt n), rargs))"
  using split_eq_attached[of "''--minlen''" v]
  by (simp add: process_long_opt_def match_long_opt_def long_opt_map_def PASSWD_RULE_PARSER_def
        help_option_def process_value_def split: option.splits)







lemma positional_step:
  assumes "take 1 arg \<noteq> ''-'' \<or> arg = ''-''"
  shows "process_args P (arg # rest) largs vals = process_args P rest (largs @ [arg]) vals"
proof -
  have "arg \<noteq> ''--''" using assms by auto
  moreover have "take 2 arg \<noteq> ''--''" using assms by (cases arg; cases "tl arg") auto
  moreover have "\<not> (take 1 arg = ''-'' \<and> length arg > 1)" using assms by auto
  ultimately show ?thesis by auto
qed





lemma first_word_Nil: "first_word [] = []"
  by (simp add: first_word_def)

lemma new_rule_part:
  "first_word (py_strip line) = ''part'' \<Longrightarrow> new_rule rd line = new_part_rule rd (py_strip line)"
  using first_word_Nil by (auto simp: new_rule_def Let_def actions_def)

lemma new_rule_passwd:
  "first_word (py_strip line) = ''passwd'' \<Longrightarrow>
   new_rule rd line = new_passwd_rule rd (py_strip line)"
  using first_word_Nil by (auto simp: new_rule_def Let_def actions_def)





















section \<open>Rendering and parsing again\<close>

text \<open>
  A plain string has no character that \<^verbatim>\<open>strip\<close> or the lexer treats specially: no
  whitespace, no quote, no backslash.
\<close>

definition plain :: "string \<Rightarrow> bool" where
  "plain s = (\<forall>c\<in>set s. \<not> is_space c \<and> \<not> shlex_quotes c \<and> \<not> shlex_escape c)"

lemma shlex_whitespace_is_space: "shlex_whitespace c \<Longrightarrow> is_space c"
  by (auto simp: shlex_whitespace_def is_space_def)

lemma split_on_join:
  "xs \<noteq> [] \<Longrightarrow> \<forall>x\<in>set xs. c \<notin> set x \<Longrightarrow> split_on c (join [c] xs) = xs"
proof (induction "[c]" xs rule: join.induct)
  case 1
  then show ?case by simp
next
  case (2 x)
  then show ?case by (simp add: split_on_no_sep)
next
  case (3 x y ys)
  have "split_on c (x @ c # join [c] (y # ys)) = split_on c x @ split_on c (join [c] (y # ys))"
    by (rule split_on_append_sep)
  then show ?case using 3 by (simp add: split_on_no_sep)
qed

lemma join_chars: "c \<in> set (join sep xs) \<Longrightarrow> c \<in> set sep \<or> (\<exists>x\<in>set xs. c \<in> set x)"
  by (induction sep xs rule: join.induct) auto

lemma join_Nil_iff: "\<forall>x\<in>set xs. x \<noteq> [] \<Longrightarrow> (join sep xs = []) = (xs = [])"
  by (induction sep xs rule: join.induct) auto

lemma word_run:
  "plain t \<Longrightarrow> read_tokens Word tok q (t @ rest) = read_tokens Word (tok @ t) q rest"
proof (induction t arbitrary: tok)
  case Nil
  then show ?case by simp
next
  case (Cons c t)
  have c: "\<not> shlex_whitespace c" "\<not> shlex_quotes c" "\<not> shlex_escape c"
    using Cons.prems shlex_whitespace_is_space by (auto simp: plain_def)
  have "plain t" using Cons.prems by (simp add: plain_def)
  then show ?case using Cons.IH[of "tok @ [c]"] c by simp
qed

lemma blank_start:
  assumes "plain t" "t \<noteq> []"
  shows "read_tokens Blank [] False (t @ rest) = read_tokens Word t False rest"
proof -
  obtain c t' where t: "t = c # t'" using assms(2) by (cases t) auto
  have c: "\<not> shlex_whitespace c" "\<not> shlex_quotes c" "\<not> shlex_escape c"
    using assms(1) t shlex_whitespace_is_space by (auto simp: plain_def)
  have "plain t'" using assms(1) t by (simp add: plain_def)
  then show ?thesis using word_run[of t' "[c]" False rest] c t by simp
qed

lemma word_space:
  "tok \<noteq> [] \<Longrightarrow>
   read_tokens Word tok q (CHR '' '' # rest) = emit tok (read_tokens Blank [] False rest)"
  by (simp add: shlex_whitespace_def)

lemma shlex_split_plain:
  "toks \<noteq> [] \<Longrightarrow> \<forall>t\<in>set toks. plain t \<and> t \<noteq> [] \<Longrightarrow>
   shlex_split (join '' '' toks) = Inr toks"
  unfolding shlex_split_def
proof (induction "'' ''" toks rule: join.induct)
  case 1
  then show ?case by simp
next
  case (2 x)
  then show ?case using blank_start[of x "[]"] by simp
next
  case (3 x y ys)
  have "read_tokens Blank [] False (x @ '' '' @ join '' '' (y # ys))
        = read_tokens Word x False ('' '' @ join '' '' (y # ys))"
    using 3 by (intro blank_start) auto
  also have "\<dots> = emit x (read_tokens Blank [] False (join '' '' (y # ys)))"
    using 3 word_space[of x False] by simp
  also have "\<dots> = Inr (x # y # ys)" using 3 by (simp add: emit_def)
  finally show ?case by simp
qed

lemma py_strip_id:
  assumes "s \<noteq> []" "\<not> is_space (hd s)" "\<not> is_space (last s)"
  shows "py_strip s = s"
proof -
  have 1: "dropWhile is_space s = s" using assms(1,2) by (cases s) auto
  have "s = butlast s @ [last s]" using assms(1) by simp
  then have "rev s = last s # rev (butlast s)" by (metis rev.simps(2) rev_rev_ident rev_swap)
  moreover have "dropWhile is_space (last s # rev (butlast s)) = last s # rev (butlast s)"
    using assms(3) by simp
  ultimately have 2: "dropWhile is_space (rev s) = rev s" by (simp only:)
  show ?thesis by (simp add: py_strip_def 1 2)
qed

text \<open>
  A plain rule is one whose rendering the lexer splits back into the same words: its mount
  point is plain, not empty and does not start with \<^verbatim>\<open>-\<close>, and its options are plain.
\<close>

definition plain_rule :: "PartRule \<Rightarrow> bool" where
  "plain_rule r =
     (plain (mount_point r) \<and> mount_point r \<noteq> [] \<and> take 1 (mount_point r) \<noteq> ''-''
      \<and> (\<forall>opt\<in>set (mount_options r). plain opt))"

lemma parse_csv_loop_list:
  "vals d = PyList xs \<Longrightarrow> \<forall>x\<in>set items. x \<noteq> [] \<Longrightarrow>
   parse_csv_loop d items vals d = PyList (xs @ items)"
  by (induction items arbitrary: vals xs) (auto simp: ensure_value_append_def)

lemma parse_csv_loop_None:
  assumes "vals d = PyNone" "items \<noteq> []" "\<forall>x\<in>set items. x \<noteq> []"
  shows "parse_csv_loop d items vals d = PyList items"
proof -
  obtain i more where items: "items = i # more" using assms(2) by (cases items) auto
  have "ensure_value_append vals d i d = PyList [i]"
    using assms(1) by (simp add: ensure_value_append_def)
  then have "parse_csv_loop d more (ensure_value_append vals d i) d = PyList ([i] @ more)"
    using assms(3) items by (intro parse_csv_loop_list) auto
  then show ?thesis using items assms(3) by simp
qed

lemma parse_csv_joined:
  assumes "opts_ok opts" "opts \<noteq> []" "vals ''mount_options'' = PyNone"
  shows "parse_csv ''mount_options'' (join '','' opts) vals ''mount_options'' = PyList opts"
proof -
  have "split_on CHR '','' (join '','' opts) = opts"
    using assms(1,2) by (intro split_on_join) (auto simp: opts_ok_def)
  then show ?thesis
    using parse_csv_loop_None[of vals "''mount_options''" opts] assms
    by (simp add: parse_csv_def opts_ok_def)
qed

lemma plain_part: "plain ''part''"
  by (simp add: plain_def is_space_def shlex_quotes_def shlex_escape_def)

lemma plain_mountoptions:
  assumes "\<forall>opt\<in>set opts. plain opt"
  shows "plain (''--mountoptions='' @ join '','' opts)"
proof -
  have "\<not> is_space c \<and> \<not> shlex_quotes c \<and> \<not> shlex_escape c" if "c \<in> set (join '','' opts)" for c
    using join_chars[OF that] assms
    by (auto simp: plain_def is_space_def shlex_quotes_def shlex_escape_def)
  then show ?thesis
    by (auto simp: plain_def is_space_def shlex_quotes_def shlex_escape_def)
qed

lemma plain_not_space: "plain s \<Longrightarrow> s \<noteq> [] \<Longrightarrow> \<not> is_space (last s) \<and> \<not> is_space (hd s)"
  by (auto simp: plain_def)

lemma str_PartRule_join:
  "str_PartRule r =
     join '' '' ([''part'', mount_point r]
                 @ (if mount_options r \<noteq> []
                    then [''--mountoptions='' @ join '','' (mount_options r)] else []))"
  by (simp add: str_PartRule_def)

lemma str_PartRule_strip:
  assumes "plain_rule r"
  shows "py_strip (str_PartRule r) = str_PartRule r"
proof (rule py_strip_id)
  show "str_PartRule r \<noteq> []" by (simp add: str_PartRule_def)
  show "\<not> is_space (hd (str_PartRule r))" by (simp add: str_PartRule_def is_space_def)
  show "\<not> is_space (last (str_PartRule r))"
  proof (cases "mount_options r = []")
    case True
    then have "last (str_PartRule r) = last (mount_point r)"
      using assms by (simp add: str_PartRule_def plain_rule_def)
    then show ?thesis using assms plain_not_space by (simp add: plain_rule_def)
  next
    case False
    let ?f = "''--mountoptions='' @ join '','' (mount_options r)"
    have "last (str_PartRule r) = last ?f"
      using False by (simp add: str_PartRule_def)
    moreover have "plain ?f" using assms plain_mountoptions by (simp add: plain_rule_def)
    ultimately show ?thesis using plain_not_space[of ?f] by simp
  qed
qed

lemma str_PartRule_first_word:
  "first_word (str_PartRule r) = ''part''"
  by (simp add: first_word_def str_PartRule_def is_space_def)

lemma str_PartRule_tokens:
  assumes "plain_rule r"
  shows "shlex_split (str_PartRule r) =
           Inr ([''part'', mount_point r]
                @ (if mount_options r \<noteq> []
                   then [''--mountoptions='' @ join '','' (mount_options r)] else []))"
  unfolding str_PartRule_join
  using assms plain_part plain_mountoptions[of "mount_options r"]
  by (intro shlex_split_plain) (auto simp: plain_rule_def)

lemma part_args_plain:
  assumes "take 1 mp \<noteq> ''-''"
  shows "parse_args PART_RULE_PARSER [''part'', mp] = Inr (defaults PART_RULE_PARSER, [''part'', mp])"
proof -
  have "process_args PART_RULE_PARSER [''part'', mp] [] (defaults PART_RULE_PARSER)
        = process_args PART_RULE_PARSER [mp] [''part''] (defaults PART_RULE_PARSER)"
    using positional_step[of "''part''" PART_RULE_PARSER "[mp]" "[]"] by simp
  also have "\<dots> = process_args PART_RULE_PARSER [] [''part'', mp] (defaults PART_RULE_PARSER)"
    using positional_step[of mp PART_RULE_PARSER "[]" "[''part'']"] assms by simp
  finally show ?thesis by (simp add: parse_args_def)
qed

lemma part_args_options:
  assumes "take 1 mp \<noteq> ''-''"
  shows "parse_args PART_RULE_PARSER [''part'', mp, ''--mountoptions='' @ csv]
         = Inr (parse_csv ''mount_options'' csv (defaults PART_RULE_PARSER), [''part'', mp])"
proof -
  let ?f = "''--mountoptions='' @ csv"
  have "process_args PART_RULE_PARSER [''part'', mp, ?f] [] (defaults PART_RULE_PARSER)
        = process_args PART_RULE_PARSER [mp, ?f] [''part''] (defaults PART_RULE_PARSER)"
    using positional_step[of "''part''" PART_RULE_PARSER "[mp, ?f]" "[]"] by simp
  also have "\<dots> = process_args PART_RULE_PARSER [?f] [''part'', mp] (defaults PART_RULE_PARSER)"
    using positional_step[of mp PART_RULE_PARSER "[?f]" "[''part'']"] assms by simp
  also have "\<dots> = process_args PART_RULE_PARSER [] [''part'', mp]
                      (parse_csv ''mount_options'' csv (defaults PART_RULE_PARSER))"
    using long_mountoptions_attached[of csv "[]" "defaults PART_RULE_PARSER"] by simp
  finally show ?thesis by (simp add: parse_args_def)
qed

lemma update_rule_last:
  "key \<notin> fst ` set rules \<Longrightarrow> update_rule (rules @ [(key, r)]) key f = rules @ [(key, f r)]"
  by (induction rules) auto

lemma extend_new_fresh: "distinct opts \<Longrightarrow> extend_new [] opts = opts"
  using extend_new_first_seen[of "[]" opts] by (simp add: distinct_remdups_id)

lemma new_part_rule_rendered:
  assumes "plain_rule r" "distinct (mount_options r)" "opts_ok (mount_options r)"
    and "mount_point r \<notin> fst ` set (part_rules rd)"
  shows "new_rule rd (str_PartRule r)
         = Inr (rd\<lparr>part_rules := part_rules rd @ [(mount_point r, r)]\<rparr>)"
proof -
  let ?mp = "mount_point r" and ?opts = "mount_options r"
  have mp: "take 1 ?mp \<noteq> ''-''" using assms(1) by (simp add: plain_rule_def)
  have nr: "new_rule rd (str_PartRule r) = new_part_rule rd (str_PartRule r)"
    using new_rule_part[of "str_PartRule r" rd] str_PartRule_strip[OF assms(1)]
      str_PartRule_first_word[of r] by simp
  have e: "ensure_mount_point (part_rules rd) ?mp = part_rules rd @ [(?mp, PartRule_init ?mp)]"
    using assms(4) by (simp add: ensure_mount_point_def)
  show ?thesis
  proof (cases "?opts = []")
    case True
    have "shlex_split (str_PartRule r) = Inr [''part'', ?mp]"
      using str_PartRule_tokens[OF assms(1)] True by simp
    moreover have "PartRule_init ?mp = r" using True by (simp add: PartRule_init_def)
    ultimately show ?thesis
      using nr part_args_plain[OF mp] e
      by (simp add: new_part_rule_def PART_RULE_PARSER_def)
  next
    case False
    let ?csv = "join '','' ?opts"
    have t: "shlex_split (str_PartRule r) = Inr [''part'', ?mp, ''--mountoptions='' @ ?csv]"
      using str_PartRule_tokens[OF assms(1)] False by simp
    have v: "parse_csv ''mount_options'' ?csv (defaults PART_RULE_PARSER) ''mount_options''
             = PyList ?opts"
      using assms(3) False by (intro parse_csv_joined) (simp_all add: PART_RULE_PARSER_def)
    have "add_mount_options (PartRule_init ?mp) ?opts = r"
      using assms(2) by (simp add: add_mount_options_def PartRule_init_def extend_new_fresh)
    then have u: "update_rule (part_rules rd @ [(?mp, PartRule_init ?mp)]) ?mp
                    (\<lambda>r. add_mount_options r ?opts) = part_rules rd @ [(?mp, r)]"
      using assms(4) by (simp add: update_rule_last)
    show ?thesis
      using nr t part_args_options[OF mp, of ?csv] v e u False
      by (simp add: new_part_rule_def)
  qed
qed

text \<open>
  \<open>feed_rules\<close> passes lines to \<^verbatim>\<open>new_rule\<close> one after the other, as a caller that does not
  catch exceptions does: the first exception ends it.
\<close>

fun feed_rules :: "RuleData \<Rightarrow> string list \<Rightarrow> py_exception + RuleData" where
  "feed_rules rd [] = Inr rd"
| "feed_rules rd (line # lines) =
     (case new_rule rd line of
        Inl e \<Rightarrow> Inl e
      | Inr rd' \<Rightarrow> feed_rules rd' lines)"

lemma feed_rules_append:
  "feed_rules rd (xs @ ys) =
     (case feed_rules rd xs of Inl e \<Rightarrow> Inl e | Inr rd' \<Rightarrow> feed_rules rd' ys)"
  by (induction xs arbitrary: rd) (auto split: sum.splits)

lemma new_rule_empty_line: "new_rule rd [] = Inr rd"
  by (simp add: new_rule_def py_strip_def)

lemma feed_part_lines:
  assumes "rules_ok (part_rules rd @ rules)" and "\<forall>(k, r)\<in>set rules. plain_rule r"
  shows "feed_rules rd (map (\<lambda>(k, r). str_PartRule r) rules)
         = Inr (rd\<lparr>part_rules := part_rules rd @ rules\<rparr>)"
  using assms
proof (induction rules arbitrary: rd)
  case Nil
  then show ?case by simp
next
  case (Cons a rules)
  obtain k r where a: "a = (k, r)" by (cases a)
  have ok: "k = mount_point r" "distinct (mount_options r)" "opts_ok (mount_options r)"
    using Cons.prems(1) by (auto simp: rules_ok_def a)
  have fresh: "mount_point r \<notin> fst ` set (part_rules rd)"
    using Cons.prems(1) ok(1) by (auto simp: rules_ok_def a)
  have pl: "plain_rule r" using Cons.prems(2) by (simp add: a)
  let ?rd1 = "rd\<lparr>part_rules := part_rules rd @ [(mount_point r, r)]\<rparr>"
  have 1: "new_rule rd (str_PartRule r) = Inr ?rd1"
    using pl ok(2,3) fresh by (rule new_part_rule_rendered)
  have "rules_ok (part_rules ?rd1 @ rules)" using Cons.prems(1) ok(1) by (simp add: a)
  then have "feed_rules ?rd1 (map (\<lambda>(k, r). str_PartRule r) rules)
             = Inr (?rd1\<lparr>part_rules := part_rules ?rd1 @ rules\<rparr>)"
    using Cons.prems(2) by (intro Cons.IH) auto
  then show ?case using 1 ok(1) by (simp add: a)
qed

lemma str_PartRule_no_newline:
  assumes "plain_rule r"
  shows "newline \<notin> set (str_PartRule r)"
proof -
  have sp: "is_space newline" by (simp add: is_space_def newline_def)
  have 1: "newline \<notin> set (mount_point r)" using assms sp by (auto simp: plain_rule_def plain_def)
  have 2: "newline \<notin> set (join '','' (mount_options r))"
  proof
    assume "newline \<in> set (join '','' (mount_options r))"
    from join_chars[OF this] show False
      using assms sp by (auto simp: plain_rule_def plain_def newline_def)
  qed
  show ?thesis using 1 2 by (auto simp: str_PartRule_def newline_def)
qed

lemma str_PartRules_lines:
  assumes "\<forall>(k, r)\<in>set rules. plain_rule r"
  shows "split_on newline (str_PartRules rules)
         = (if rules = [] then [[]] else map (\<lambda>(k, r). str_PartRule r) rules)"
proof (cases "rules = []")
  case True
  then show ?thesis by (simp add: str_PartRules_def)
next
  case False
  have "split_on newline (join [newline] (map (\<lambda>(k, r). str_PartRule r) rules))
        = map (\<lambda>(k, r). str_PartRule r) rules"
    using False assms str_PartRule_no_newline by (intro split_on_join) auto
  then show ?thesis using False by (simp add: str_PartRules_def)
qed

lemma feed_str_PartRules:
  assumes "rules_ok (part_rules rd @ rules)" and "\<forall>(k, r)\<in>set rules. plain_rule r"
  shows "feed_rules rd (split_on newline (str_PartRules rules))
         = Inr (rd\<lparr>part_rules := part_rules rd @ rules\<rparr>)"
proof (cases "rules = []")
  case True
  then show ?thesis using str_PartRules_lines[of rules] by (simp add: new_rule_empty_line)
next
  case False
  then show ?thesis using str_PartRules_lines[OF assms(2)] feed_part_lines[OF assms] by simp
qed

lemma digit_cases: "d < 10 \<Longrightarrow> d \<in> {0, 1, 2, 3, 4, 5, 6, 7, 8, 9::nat}"
  by auto

lemma digit_value_digit_char: "d < 10 \<Longrightarrow> digit_value (digit_char d) = Some d"
  by (drule digit_cases) (auto simp: digit_value_def digit_char_def)

lemma digit_char_plain:
  "d < 10 \<Longrightarrow> \<not> is_space (digit_char d) \<and> \<not> shlex_quotes (digit_char d)
    \<and> \<not> shlex_escape (digit_char d) \<and> digit_char d \<noteq> CHR ''-'' \<and> digit_char d \<noteq> CHR ''+''
    \<and> (d \<noteq> 0 \<longrightarrow> digit_char d \<noteq> CHR ''0'')"
  by (drule digit_cases)
     (auto simp: digit_char_def is_space_def shlex_quotes_def shlex_escape_def)

lemma digits_value_snoc:
  "digits_value radix (xs @ [c]) acc =
     (case digits_value radix xs acc of
        None \<Rightarrow> None
      | Some v \<Rightarrow> digits_value radix [c] v)"
  by (induction xs arbitrary: acc) (auto split: option.splits)

lemma digits_value_str_nat: "digits_value 10 (str_nat n) 0 = Some n"
proof (induction n rule: str_nat.induct)
  case (1 n)
  show ?case
  proof (cases "n < 10")
    case True
    then show ?thesis by (simp add: str_nat.simps[of n] digit_value_digit_char)
  next
    case False
    have "n mod 10 < 10" by simp
    then have "digit_value (digit_char (n mod 10)) = Some (n mod 10)"
      by (rule digit_value_digit_char)
    then show ?thesis using False "1.IH"
      by (simp add: str_nat.simps[of n] digits_value_snoc)
  qed
qed

lemma str_nat_not_Nil: "str_nat n \<noteq> []"
  by (simp add: str_nat.simps[of n])

lemma str_nat_chars: "c \<in> set (str_nat n) \<Longrightarrow> \<exists>d<10. c = digit_char d"
proof (induction n rule: str_nat.induct)
  case (1 n)
  show ?case
  proof (cases "n < 10")
    case True
    then show ?thesis using "1.prems" by (auto simp: str_nat.simps[of n])
  next
    case False
    have "\<exists>d<10. digit_char (n mod 10) = digit_char d"
      by (rule exI[of _ "n mod 10"]) simp
    then show ?thesis using False "1.prems" "1.IH"
      by (auto simp: str_nat.simps[of n])
  qed
qed

lemma str_nat_hd: "n > 0 \<Longrightarrow> \<exists>d<10. d \<noteq> 0 \<and> hd (str_nat n) = digit_char d"
proof (induction n rule: str_nat.induct)
  case (1 n)
  show ?case
  proof (cases "n < 10")
    case True
    then show ?thesis using "1.prems" by (auto simp: str_nat.simps[of n])
  next
    case False
    then have "n div 10 > 0" by simp
    then show ?thesis using False "1.IH" str_nat_not_Nil[of "n div 10"]
      by (simp add: str_nat.simps[of n])
  qed
qed

lemma str_nat_plain: "plain (str_nat n)"
  using str_nat_chars digit_char_plain by (fastforce simp: plain_def)

lemma parse_num_str_nat:
  assumes "n > 0"
  shows "parse_num (str_nat n) = Some (int n)"
proof -
  let ?s = "str_nat n"
  obtain c cs where s: "?s = c # cs" using str_nat_not_Nil[of n] by (cases ?s) auto
  obtain d where d: "d < 10" "d \<noteq> 0" "c = digit_char d"
    using str_nat_hd[OF assms] s by auto
  have c: "c \<noteq> CHR ''0''" "c \<noteq> CHR ''-''" "c \<noteq> CHR ''+''" "\<not> is_space c"
    using digit_char_plain[OF d(1)] d by auto
  have "\<not> is_space (last ?s)"
    using str_nat_plain[of n] plain_not_space[of ?s] str_nat_not_Nil by blast
  then have strip: "py_strip ?s = ?s"
    using c(4) s by (intro py_strip_id) auto
  have "py_int ?s 10 = Some (int n)"
    using strip s c digits_value_str_nat[of n]
    by (simp add: py_int_def radix_prefix_def)
  then show ?thesis using s c by (simp add: parse_num_def)
qed

lemma plain_minlen: "plain (''--minlen='' @ str_nat n)"
  using str_nat_plain[of n]
  by (auto simp: plain_def is_space_def shlex_quotes_def shlex_escape_def)

lemma plain_passwd: "plain ''passwd''"
  by (simp add: plain_def is_space_def shlex_quotes_def shlex_escape_def)

lemma passwd_args:
  assumes "parse_num s = Some n"
  shows "parse_args PASSWD_RULE_PARSER [''passwd'', ''--minlen='' @ s]
         = Inr ((defaults PASSWD_RULE_PARSER)(''minlen'' := PyInt n), [''passwd''])"
proof -
  let ?f = "''--minlen='' @ s"
  have "process_args PASSWD_RULE_PARSER [''passwd'', ?f] [] (defaults PASSWD_RULE_PARSER)
        = process_args PASSWD_RULE_PARSER [?f] [''passwd''] (defaults PASSWD_RULE_PARSER)"
    using positional_step[of "''passwd''" PASSWD_RULE_PARSER "[?f]" "[]"] by simp
  also have "\<dots> = process_args PASSWD_RULE_PARSER [] [''passwd'']
                      ((defaults PASSWD_RULE_PARSER)(''minlen'' := PyInt n))"
    using long_minlen_attached[of s "[]" "defaults PASSWD_RULE_PARSER"] assms by simp
  finally show ?thesis by (simp add: parse_args_def)
qed

lemma new_rule_passwd_rendered:
  assumes "minlen p > 0"
  shows "new_rule rd (str_PasswdRules p)
         = Inr (rd\<lparr>passwd_rules := update_minlen (passwd_rules rd) (minlen p)\<rparr>)"
proof -
  let ?n = "nat (minlen p)"
  let ?line = "''passwd --minlen='' @ str_nat ?n"
  have line: "str_PasswdRules p = ?line"
    using assms by (simp add: str_PasswdRules_def str_int_def)
  have j: "?line = join '' '' [''passwd'', ''--minlen='' @ str_nat ?n]" by simp
  have "\<not> is_space (last (''--minlen='' @ str_nat ?n))"
    using plain_not_space[OF plain_minlen[of ?n]] by simp
  then have "\<not> is_space (last ?line)" using str_nat_not_Nil[of ?n] by simp
  then have strip: "py_strip ?line = ?line"
    by (intro py_strip_id) (simp_all add: is_space_def)
  have fw: "first_word ?line = ''passwd''" by (simp add: first_word_def is_space_def)
  have toks: "shlex_split ?line = Inr [''passwd'', ''--minlen='' @ str_nat ?n]"
    unfolding j using plain_passwd plain_minlen[of ?n] by (intro shlex_split_plain) auto
  have pn: "parse_num (str_nat ?n) = Some (minlen p)"
    using parse_num_str_nat[of ?n] assms by simp
  have "new_rule rd ?line = new_passwd_rule rd ?line"
    using new_rule_passwd[of ?line rd] strip fw by simp
  then show ?thesis
    using toks passwd_args[OF pn] by (simp add: line new_passwd_rule_def)
qed

lemma new_rule_minlen:
  assumes "new_rule rd line = Inr rd'" and "minlen (passwd_rules rd) \<ge> 0"
  shows "minlen (passwd_rules rd') \<ge> 0"
proof (cases "py_strip line = []")
  case True
  then show ?thesis using assms by (simp add: new_rule_def)
next
  case False
  then obtain handler where h: "actions (first_word (py_strip line)) = Some handler"
    and r: "handler rd (py_strip line) = Inr rd'"
    using assms(1) by (auto simp: new_rule_def Let_def split: option.splits)
  from actions_cases[OF h] show ?thesis
  proof (elim disjE conjE)
    assume "handler = new_part_rule"
    then show ?thesis using r assms(2)
      by (auto simp: new_part_rule_def Let_def split: sum.splits if_splits py_value.splits)
  next
    assume "handler = new_passwd_rule"
    then show ?thesis using r assms(2)
      by (auto simp: new_passwd_rule_def update_minlen_def split: sum.splits py_value.splits)
  next
    assume "handler = new_package_rule"
    then show ?thesis using r assms(2)
      by (auto simp: new_package_rule_def split: sum.splits)
  next
    assume "handler = new_bootloader_rule"
    then show ?thesis using r assms(2)
      by (auto simp: new_bootloader_rule_def split: sum.splits if_splits)
  qed
qed

lemma load_rules_minlen:
  "minlen (passwd_rules rd) \<ge> 0 \<Longrightarrow> minlen (passwd_rules (load_rules rd lines)) \<ge> 0"
  unfolding load_rules_def
proof (induction lines arbitrary: rd)
  case Nil
  then show ?case by simp
next
  case (Cons l lines)
  have "minlen (passwd_rules (case new_rule rd l of Inl e \<Rightarrow> rd | Inr rd' \<Rightarrow> rd')) \<ge> 0"
    using Cons.prems new_rule_minlen by (auto split: sum.splits)
  then show ?case using Cons.IH by simp
qed

lemma str_PasswdRules_no_newline: "newline \<notin> set (str_PasswdRules p)"
proof -
  have "is_space newline" by (simp add: is_space_def newline_def)
  then have "newline \<notin> set (str_nat n)" for n
    using str_nat_plain[of n] by (auto simp: plain_def)
  then show ?thesis by (auto simp: str_PasswdRules_def str_int_def newline_def)
qed

lemma str_PackageRules_not_Nil: "str_PackageRules p \<noteq> []"
  by (simp add: str_PackageRules_def Let_def)

lemma str_RuleData_lines:
  "split_on newline (str_RuleData rd)
   = (split_on newline (str_PartRules (part_rules rd))
      @ (if minlen (passwd_rules rd) > 0 then [str_PasswdRules (passwd_rules rd)] else []))
     @ split_on newline (str_PackageRules (package_rules rd))"
proof (cases "minlen (passwd_rules rd) > 0")
  case True
  then have ne: "str_PasswdRules (passwd_rules rd) \<noteq> []" by (simp add: str_PasswdRules_def)
  have "str_RuleData rd = (str_PartRules (part_rules rd) @ newline # str_PasswdRules (passwd_rules rd))
                          @ newline # str_PackageRules (package_rules rd)"
    using ne str_PackageRules_not_Nil by (simp add: str_RuleData_def Let_def)
  then show ?thesis
    using True str_PasswdRules_no_newline[of "passwd_rules rd"]
    by (simp only: split_on_append_sep) (simp add: split_on_no_sep)
next
  case False
  then have e: "str_PasswdRules (passwd_rules rd) = []" by (simp add: str_PasswdRules_def)
  have "str_RuleData rd = str_PartRules (part_rules rd)
                          @ newline # str_PackageRules (package_rules rd)"
    using e str_PackageRules_not_Nil by (simp add: str_RuleData_def Let_def)
  then show ?thesis using False by (simp only: split_on_append_sep) simp
qed

text \<open>
  C2, as amended.  Take the rule data built from any lines, and suppose all its partition
  rules are plain.  The lines of its rendering are the lines of the partition rules, then
  the line of the password rules when the minimum length is positive, then what
  \<^verbatim>\<open>PackageRules.__str__\<close> renders.  Feeding the lines before the package part to \<open>new_rule\<close>,
  starting from empty rule data, raises nothing and gives back the same partition rules
  and the same password rules.
\<close>

theorem rendered_lines_round_trip:
  assumes "rd = load_rules RuleData_init lines"
    and "\<forall>(k, r)\<in>set (part_rules rd). plain_rule r"
  shows "split_on newline (str_RuleData rd)
           = (split_on newline (str_PartRules (part_rules rd))
              @ (if minlen (passwd_rules rd) > 0 then [str_PasswdRules (passwd_rules rd)] else []))
             @ split_on newline (str_PackageRules (package_rules rd))
         \<and> feed_rules RuleData_init
               (split_on newline (str_PartRules (part_rules rd))
                @ (if minlen (passwd_rules rd) > 0 then [str_PasswdRules (passwd_rules rd)] else []))
             = Inr (RuleData_init\<lparr>part_rules := part_rules rd, passwd_rules := passwd_rules rd\<rparr>)"
proof -
  have ok: "rules_ok (part_rules rd)"
    using load_rules_ok[OF RuleData_init_ok] assms(1) by simp
  have ml: "minlen (passwd_rules rd) \<ge> 0"
    using load_rules_minlen[of RuleData_init lines] assms(1)
    by (simp add: RuleData_init_def PasswdRules_init_def)
  let ?rd1 = "RuleData_init\<lparr>part_rules := part_rules rd\<rparr>"
  have "rules_ok (part_rules RuleData_init @ part_rules rd)"
    using ok by (simp add: RuleData_init_def)
  then have 1: "feed_rules RuleData_init (split_on newline (str_PartRules (part_rules rd)))
                = Inr (RuleData_init\<lparr>part_rules := part_rules RuleData_init @ part_rules rd\<rparr>)"
    using assms(2) by (rule feed_str_PartRules)
  then have 1: "feed_rules RuleData_init (split_on newline (str_PartRules (part_rules rd)))
                = Inr ?rd1"
    by (simp add: RuleData_init_def)
  have 2: "feed_rules ?rd1
             (if minlen (passwd_rules rd) > 0 then [str_PasswdRules (passwd_rules rd)] else [])
           = Inr (?rd1\<lparr>passwd_rules := passwd_rules rd\<rparr>)"
  proof (cases "minlen (passwd_rules rd) > 0")
    case True
    have "update_minlen (passwd_rules ?rd1) (minlen (passwd_rules rd)) = passwd_rules rd"
      using True by (simp add: update_minlen_def RuleData_init_def PasswdRules_init_def)
    then show ?thesis
      using True new_rule_passwd_rendered[OF True, of ?rd1] by simp
  next
    case False
    then have "minlen (passwd_rules rd) = 0" using ml by simp
    then have "passwd_rules rd = PasswdRules_init" by (simp add: PasswdRules_init_def)
    then show ?thesis using False by (simp add: RuleData_init_def)
  qed
  have "feed_rules RuleData_init
               (split_on newline (str_PartRules (part_rules rd))
                @ (if minlen (passwd_rules rd) > 0 then [str_PasswdRules (passwd_rules rd)] else []))
        = Inr (RuleData_init\<lparr>part_rules := part_rules rd, passwd_rules := passwd_rules rd\<rparr>)"
    using 1 2 by (simp only: feed_rules_append sum.case)
  then show ?thesis using str_RuleData_lines[of rd] by blast
qed

theorem rendered_lines_round_trip_witness:
  "load_rules RuleData_init
      [''part /tmp --mountoptions=nodev,nosuid'', ''passwd --minlen=8'', ''package --add=vim'']
    = \<lparr>part_rules = [(''/tmp'', \<lparr>mount_point = ''/tmp'', mount_options = [''nodev'', ''nosuid'']\<rparr>)],
       passwd_rules = \<lparr>minlen = 8\<rparr>,
       package_rules = \<lparr>add_pkgs = [''vim''], remove_pkgs = []\<rparr>,
       bootloader_rules = \<lparr>require_password_flag = False\<rparr>\<rparr>
   \<and> plain_rule \<lparr>mount_point = ''/tmp'', mount_options = [''nodev'', ''nosuid'']\<rparr>
   \<and> feed_rules RuleData_init [''part /tmp --mountoptions=nodev,nosuid'', ''passwd --minlen=8'']
     = Inr (RuleData_init
              \<lparr>part_rules :=
                 [(''/tmp'', \<lparr>mount_point = ''/tmp'', mount_options = [''nodev'', ''nosuid'']\<rparr>)],
               passwd_rules := \<lparr>minlen = 8\<rparr>\<rparr>)"
proof -
  let ?lines = "[''part /tmp --mountoptions=nodev,nosuid'', ''passwd --minlen=8'', ''package --add=vim'']"
  let ?r = "\<lparr>mount_point = ''/tmp'', mount_options = [''nodev'', ''nosuid'']\<rparr>"
  let ?rd = "\<lparr>part_rules = [(''/tmp'', ?r)], passwd_rules = \<lparr>minlen = 8\<rparr>,
              package_rules = \<lparr>add_pkgs = [''vim''], remove_pkgs = []\<rparr>,
              bootloader_rules = \<lparr>require_password_flag = False\<rparr>\<rparr>"
  have 1: "load_rules RuleData_init ?lines = ?rd" by code_simp
  have 2: "plain_rule ?r" by code_simp
  have 3: "split_on newline (str_PartRules (part_rules ?rd)) = [''part /tmp --mountoptions=nodev,nosuid'']"
    by code_simp
  have 4: "str_PasswdRules (passwd_rules ?rd) = ''passwd --minlen=8''" by code_simp
  have "feed_rules RuleData_init [''part /tmp --mountoptions=nodev,nosuid'', ''passwd --minlen=8'']
     = Inr (RuleData_init\<lparr>part_rules := [(''/tmp'', ?r)], passwd_rules := \<lparr>minlen = 8\<rparr>\<rparr>)"
    using rendered_lines_round_trip[of ?rd ?lines] 1 2 3 4 by simp
  then show ?thesis using 1 2 by simp
qed

text \<open>
  The claim as stated fails.  The rendering always ends with a line that starts with the
  word \<^verbatim>\<open>packages\<close>, which \<open>new_rule\<close> does not know, so feeding all rendered lines back ends
  in \<^verbatim>\<open>UknownRuleError\<close>; and the rendering does not quote, so the mount point
  \<^verbatim>\<open>/my dir\<close>, given in quotes, is rendered as two words and read back as \<^verbatim>\<open>/my\<close>.
\<close>

theorem rendered_lines_do_not_round_trip:
  "feed_rules RuleData_init
     (split_on newline (str_RuleData (load_rules RuleData_init [''part /tmp''])))
   = Inl (UknownRuleError (''Unknown rule: '' @ [apostrophe] @ ''packages'' @ [apostrophe]))
   \<and> part_rules (load_rules RuleData_init [''part '' @ [CHR 0x22] @ ''/my dir'' @ [CHR 0x22]])
     = [(''/my dir'', \<lparr>mount_point = ''/my dir'', mount_options = []\<rparr>)]
   \<and> str_PartRules [(''/my dir'', \<lparr>mount_point = ''/my dir'', mount_options = []\<rparr>)]
     = ''part /my dir''
   \<and> new_rule RuleData_init ''part /my dir''
     = Inr (RuleData_init\<lparr>part_rules := [(''/my'', \<lparr>mount_point = ''/my'', mount_options = []\<rparr>)]\<rparr>)"
  by code_simp

end
